theory Spec2Isabelle
  imports Main "HOL-Library.Sublist"
begin

section \<open>The page: elements, the document tree and the browser state\<close>

text \<open>
  \<^verbatim>\<open>src/js/main.js\<close> is one script that reacts to DOM events. The model keeps the
  script's own state (the fields of the \<^verbatim>\<open>navigation\<close> object and the \<^verbatim>\<open>timeout\<close>
  variable captured by \<^verbatim>\<open>utils.debounce\<close>) together with the part of the browser the
  script reads and writes: the elements of the document, the viewport width, the focused
  element, the registered listeners and the timer table.

  A node is named by its position in the document tree: the document is \<open>[]\<close> and the
  \<open>i\<close>-th child of \<open>p\<close> is \<open>p @ [i]\<close>. So \<^verbatim>\<open>a.contains(b)\<close> is \<open>prefix a b\<close> (a node
  contains itself), and a bubbling event visits the prefixes of its target, longest first.

  Of the modules of the script, the navigation module and \<^verbatim>\<open>lazyLoad.loadImage\<close> are
  modelled. The listeners of the other modules (the skip link, the focus indicators, the
  forms) neither read nor write the fields and elements of the navigation module, and
  none of them stops the propagation of an event, so they are left out of the listener
  table. Time is counted in milliseconds; a timer runs when the clock has reached its due
  time and the event loop takes it up.
\<close>

type_synonym node = "nat list"

record element =
  classList :: "string list"
  attrs :: "string \<rightharpoonup> string"

datatype error = TypeError

text \<open>A call either returns or throws; both leave a state behind (a JavaScript exception
  does not undo the writes made before it).\<close>

datatype 'a result = Returns 'a | Throws error 'a

fun state_of :: "'a result \<Rightarrow> 'a" where
  "state_of (Returns s) = s"
| "state_of (Throws e s) = s"

fun and_then :: "'a result \<Rightarrow> ('a \<Rightarrow> 'a result) \<Rightarrow> 'a result" where
  "and_then (Returns s) f = f s"
| "and_then (Throws e s) f = Throws e s"

datatype evtarget = Window | Node node

text \<open>The closures of the script, one constructor per function literal:
  \<^item> \<open>ToggleClick\<close>: the click listener of the toggle (lines 116-119);
  \<^item> \<open>LinkClick\<close>: the click listener of each nav link (lines 123-127);
  \<^item> \<open>DocClick\<close>: the click listener of the document (lines 131-137);
  \<^item> \<open>DocKeydown\<close>: the keydown listener of the document (lines 140-145);
  \<^item> \<open>Debounced wait\<close>: \<^verbatim>\<open>executedFunction\<close>, returned by \<^verbatim>\<open>utils.debounce\<close> (lines 46-53);
  \<^item> \<open>LinkKeydown links index\<close>: the keydown listener of the link at \<open>index\<close> of the
    static list \<open>links\<close> (lines 163-173).
  The timer callbacks are \<open>FocusCb firstLink\<close>, the arrow function \<^verbatim>\<open>() => firstLink.focus()\<close>
  of line 191, and \<open>LaterCb\<close>, the function \<^verbatim>\<open>later\<close> of \<^verbatim>\<open>utils.debounce\<close>.\<close>

datatype handler =
  ToggleClick | LinkClick | DocClick | DocKeydown | Debounced nat | LinkKeydown "node list" nat

datatype callback = FocusCb node | LaterCb

record event =
  etype :: string
  target :: evtarget
  key :: string
  propagationStopped :: bool
  defaultPrevented :: bool

record state =
  nodes :: "node list"                  \<comment> \<open>the elements attached to the document, in document order\<close>
  elems :: "node \<Rightarrow> element"
  body :: node                          \<comment> \<open>\<^verbatim>\<open>document.body\<close>\<close>
  innerWidth :: int                     \<comment> \<open>\<^verbatim>\<open>window.innerWidth\<close>\<close>
  focused :: "node option"              \<comment> \<open>the element \<^verbatim>\<open>focus()\<close> was last called on\<close>
  nav_toggle :: "node option"           \<comment> \<open>\<^verbatim>\<open>navigation.toggle\<close>, \<open>None\<close> is \<^verbatim>\<open>null\<close>\<close>
  nav_nav :: "node option"              \<comment> \<open>\<^verbatim>\<open>navigation.nav\<close>\<close>
  isOpen :: bool                        \<comment> \<open>\<^verbatim>\<open>navigation.isOpen\<close>\<close>
  listeners :: "(evtarget \<times> string \<times> handler) list"
  timers :: "(nat \<times> nat \<times> callback) list"   \<comment> \<open>pending timers: id, due time, callback\<close>
  nextTimer :: nat
  clock :: nat                          \<comment> \<open>milliseconds\<close>
  timeout :: "nat option"               \<comment> \<open>the variable \<^verbatim>\<open>timeout\<close> of \<^verbatim>\<open>utils.debounce\<close>\<close>
  fired :: "callback list"              \<comment> \<open>the timer callbacks run so far, oldest first\<close>

section \<open>Configuration\<close>

text \<open>\<^verbatim>\<open>CONFIG\<close>, lines 13-35. The selectors are class selectors; the model keeps the class name.\<close>

definition breakpoints_mobile :: int where "breakpoints_mobile = 768"
definition selectors_toggle :: string where "selectors_toggle = ''mobile-menu-toggle''"
definition selectors_nav :: string where "selectors_nav = ''main-nav''"
definition selectors_navLinks :: string where "selectors_navLinks = ''nav-link''"
definition classes_active :: string where "classes_active = ''active''"
definition classes_menuOpen :: string where "classes_menuOpen = ''menu-open''"
definition classes_loaded :: string where "classes_loaded = ''loaded''"
definition aria_expanded :: string where "aria_expanded = ''aria-expanded''"
definition aria_hidden :: string where "aria_hidden = ''aria-hidden''"

section \<open>The DOM operations the script calls\<close>

definition el_classList_add :: "string \<Rightarrow> element \<Rightarrow> element" where
  "el_classList_add c e =
     (if c \<in> set (classList e) then e else e\<lparr>classList := classList e @ [c]\<rparr>)"

definition el_classList_remove :: "string \<Rightarrow> element \<Rightarrow> element" where
  "el_classList_remove c e = e\<lparr>classList := filter (\<lambda>x. x \<noteq> c) (classList e)\<rparr>"

definition el_setAttribute :: "string \<Rightarrow> string \<Rightarrow> element \<Rightarrow> element" where
  "el_setAttribute a v e = e\<lparr>attrs := (attrs e)(a \<mapsto> v)\<rparr>"

definition el_removeAttribute :: "string \<Rightarrow> element \<Rightarrow> element" where
  "el_removeAttribute a e = e\<lparr>attrs := (attrs e)(a := None)\<rparr>"

definition update_elem :: "node \<Rightarrow> (element \<Rightarrow> element) \<Rightarrow> state \<Rightarrow> state" where
  "update_elem n f s = s\<lparr>elems := (elems s)(n := f (elems s n))\<rparr>"

definition classList_add :: "node \<Rightarrow> string \<Rightarrow> state \<Rightarrow> state" where
  "classList_add n c = update_elem n (el_classList_add c)"

definition classList_remove :: "node \<Rightarrow> string \<Rightarrow> state \<Rightarrow> state" where
  "classList_remove n c = update_elem n (el_classList_remove c)"

definition setAttribute :: "node \<Rightarrow> string \<Rightarrow> string \<Rightarrow> state \<Rightarrow> state" where
  "setAttribute n a v = update_elem n (el_setAttribute a v)"

text \<open>\<^verbatim>\<open>el.focus()\<close>: the state records the element the call was made on.\<close>

definition focus :: "node \<Rightarrow> state \<Rightarrow> state" where
  "focus n s = s\<lparr>focused := Some n\<rparr>"

text \<open>\<^verbatim>\<open>a.contains(x)\<close>: the window is not a node of the tree.\<close>

fun contains :: "node \<Rightarrow> evtarget \<Rightarrow> bool" where
  "contains a (Node x) = prefix a x"
| "contains a Window = False"

text \<open>\<^verbatim>\<open>setTimeout\<close> hands out a fresh id and queues the callback; \<^verbatim>\<open>clearTimeout\<close> of an
  id that is not pending, or of \<^verbatim>\<open>undefined\<close>, does nothing.\<close>

definition setTimeout :: "callback \<Rightarrow> nat \<Rightarrow> state \<Rightarrow> nat \<times> state" where
  "setTimeout cb delay s =
     (nextTimer s,
      s\<lparr>timers := timers s @ [(nextTimer s, clock s + delay, cb)],
        nextTimer := Suc (nextTimer s)\<rparr>)"

definition clearTimeout :: "nat option \<Rightarrow> state \<Rightarrow> state" where
  "clearTimeout h s =
     (case h of None \<Rightarrow> s
      | Some i \<Rightarrow> s\<lparr>timers := filter (\<lambda>tm. fst tm \<noteq> i) (timers s)\<rparr>)"

section \<open>utils\<close>

text \<open>\<^verbatim>\<open>utils.isMobile\<close>, lines 59-61.\<close>

definition isMobile :: "state \<Rightarrow> bool" where
  "isMobile s = (innerWidth s < breakpoints_mobile)"

text \<open>\<^verbatim>\<open>utils.$\<close> and \<^verbatim>\<open>utils.$$\<close>, lines 66-75, for a class selector: the first, or all,
  of the descendants of the context that carry the class, in document order. The default
  context is the document, \<open>[]\<close>.\<close>

definition selected :: "string \<Rightarrow> node \<Rightarrow> state \<Rightarrow> node \<Rightarrow> bool" where
  "selected cls ctx s n = (strict_prefix ctx n \<and> cls \<in> set (classList (elems s n)))"

definition querySelector :: "string \<Rightarrow> node \<Rightarrow> state \<Rightarrow> node option" where
  "querySelector cls ctx s = find (selected cls ctx s) (nodes s)"

definition querySelectorAll :: "string \<Rightarrow> node \<Rightarrow> state \<Rightarrow> node list" where
  "querySelectorAll cls ctx s = filter (selected cls ctx s) (nodes s)"

text \<open>\<^verbatim>\<open>utils.on\<close>, lines 80-84: no listener is added for a \<^verbatim>\<open>null\<close> element.\<close>

definition on :: "evtarget option \<Rightarrow> string \<Rightarrow> handler \<Rightarrow> state \<Rightarrow> state" where
  "on el ev h s =
     (case el of None \<Rightarrow> s | Some x \<Rightarrow> s\<lparr>listeners := listeners s @ [(x, ev, h)]\<rparr>)"

text \<open>\<^verbatim>\<open>utils.debounce\<close>, lines 44-54. \<open>executedFunction\<close> is the returned function, \<open>later\<close>
  the callback it schedules; \<open>func\<close> is the debounced function.\<close>

definition executedFunction :: "nat \<Rightarrow> state \<Rightarrow> state" where
  "executedFunction wait s =
     (let s1 = clearTimeout (timeout s) s;
          (i, s2) = setTimeout LaterCb wait s1
      in s2\<lparr>timeout := Some i\<rparr>)"

definition later :: "(state \<Rightarrow> state result) \<Rightarrow> state \<Rightarrow> state result" where
  "later func s = func (clearTimeout (timeout s) s)"

section \<open>The navigation module\<close>

text \<open>\<^verbatim>\<open>openMenu\<close>, lines 181-193.\<close>

definition openMenu :: "state \<Rightarrow> state result" where
  "openMenu s =
     (let s1 = s\<lparr>isOpen := True\<rparr> in
      case nav_nav s1 of
        None \<Rightarrow> Throws TypeError s1
      | Some n \<Rightarrow>
          (let s2 = classList_add n classes_active s1;
               s3 = classList_add (body s2) classes_menuOpen s2
           in (case nav_toggle s3 of
                 None \<Rightarrow> Throws TypeError s3
               | Some t \<Rightarrow>
                   (let s4 = setAttribute t aria_expanded ''true'' s3;
                        s5 = setAttribute n aria_hidden ''false'' s4
                    in (case querySelector selectors_navLinks n s5 of
                          None \<Rightarrow> Returns s5
                        | Some firstLink \<Rightarrow>
                            Returns (snd (setTimeout (FocusCb firstLink) 100 s5)))))))"

text \<open>\<^verbatim>\<open>closeMenu\<close>, lines 195-201.\<close>

definition closeMenu :: "state \<Rightarrow> state result" where
  "closeMenu s =
     (let s1 = s\<lparr>isOpen := False\<rparr> in
      case nav_nav s1 of
        None \<Rightarrow> Throws TypeError s1
      | Some n \<Rightarrow>
          (let s2 = classList_remove n classes_active s1;
               s3 = classList_remove (body s2) classes_menuOpen s2
           in (case nav_toggle s3 of
                 None \<Rightarrow> Throws TypeError s3
               | Some t \<Rightarrow>
                   Returns (setAttribute n aria_hidden ''true''
                             (setAttribute t aria_expanded ''false'' s3)))))"

text \<open>\<^verbatim>\<open>toggleMenu\<close>, lines 177-179.\<close>

definition toggleMenu :: "state \<Rightarrow> state result" where
  "toggleMenu s = (if isOpen s then closeMenu s else openMenu s)"

text \<open>The function debounced at lines 148-152.\<close>

definition onResize :: "state \<Rightarrow> state result" where
  "onResize s = (if \<not> isMobile s \<and> isOpen s then closeMenu s else Returns s)"

text \<open>\<^verbatim>\<open>links[i]\<close> on the static node list: \<^verbatim>\<open>undefined\<close> out of range, also at \<open>-1\<close>.\<close>

definition item :: "node list \<Rightarrow> int \<Rightarrow> node option" where
  "item links i = (if 0 \<le> i \<and> i < int (length links) then Some (links ! nat i) else None)"

text \<open>\<^verbatim>\<open>a || b\<close> on element references.\<close>

fun or_else :: "node option \<Rightarrow> node option \<Rightarrow> node option" where
  "or_else (Some x) y = Some x"
| "or_else None y = y"

text \<open>The listeners. Each takes the event and the state and gives both back; an
  exception leaves the state as it was when thrown.\<close>

fun run_handler :: "handler \<Rightarrow> event \<Rightarrow> state \<Rightarrow> event \<times> state result" where
  "run_handler ToggleClick e s = (e\<lparr>propagationStopped := True\<rparr>, toggleMenu s)"
| "run_handler LinkClick e s = (e, if isMobile s then closeMenu s else Returns s)"
| "run_handler DocClick e s =
     (e, if isOpen s then
           (case nav_toggle s of
              None \<Rightarrow> Throws TypeError s
            | Some t \<Rightarrow>
                if \<not> contains t (target e) then
                  (case nav_nav s of
                     None \<Rightarrow> Throws TypeError s
                   | Some n \<Rightarrow> if \<not> contains n (target e) then closeMenu s else Returns s)
                else Returns s)
         else Returns s)"
| "run_handler DocKeydown e s =
     (e, if key e = ''Escape'' \<and> isOpen s then
           and_then (closeMenu s)
             (\<lambda>s'. case nav_toggle s' of
                      None \<Rightarrow> Throws TypeError s'
                    | Some t \<Rightarrow> Returns (focus t s'))
         else Returns s)"
| "run_handler (Debounced wait) e s = (e, Returns (executedFunction wait s))"
| "run_handler (LinkKeydown links index) e s =
     (if key e = ''ArrowDown'' \<or> key e = ''ArrowRight'' then
        (e\<lparr>defaultPrevented := True\<rparr>,
         case or_else (item links (int index + 1)) (item links 0) of
           None \<Rightarrow> Throws TypeError s
         | Some next \<Rightarrow> Returns (focus next s))
      else if key e = ''ArrowUp'' \<or> key e = ''ArrowLeft'' then
        (e\<lparr>defaultPrevented := True\<rparr>,
         case or_else (item links (int index - 1)) (item links (int (length links) - 1)) of
           None \<Rightarrow> Throws TypeError s
         | Some prev \<Rightarrow> Returns (focus prev s))
      else (e, Returns s))"

text \<open>\<^verbatim>\<open>bindEvents\<close>, lines 114-153.\<close>

definition bindEvents :: "state \<Rightarrow> state result" where
  "bindEvents s =
     (let s1 = on (map_option Node (nav_toggle s)) ''click'' ToggleClick s in
      case nav_nav s1 of
        None \<Rightarrow> Throws TypeError s1
      | Some n \<Rightarrow>
          let s2 = fold (\<lambda>link. on (Some (Node link)) ''click'' LinkClick)
                        (querySelectorAll selectors_navLinks n s1) s1;
              s3 = on (Some (Node [])) ''click'' DocClick s2;
              s4 = on (Some (Node [])) ''keydown'' DocKeydown s3
          in Returns (on (Some Window) ''resize'' (Debounced 150) s4))"

text \<open>\<^verbatim>\<open>setupAccessibility\<close>, lines 155-175.\<close>

definition setupAccessibility :: "state \<Rightarrow> state result" where
  "setupAccessibility s =
     (case nav_toggle s of
        None \<Rightarrow> Throws TypeError s
      | Some t \<Rightarrow>
          (let s1 = setAttribute t aria_expanded ''false'' s in
           (case nav_nav s1 of
              None \<Rightarrow> Throws TypeError s1
            | Some n \<Rightarrow>
                (let s2 = setAttribute n aria_hidden ''true'' s1;
                     links = querySelectorAll selectors_navLinks n s2
                 in Returns (fold (\<lambda>(link, index). on (Some (Node link)) ''keydown''
                                                        (LinkKeydown links index))
                                  (zip links [0..<length links]) s2)))))"

text \<open>\<^verbatim>\<open>init\<close>, lines 104-112.\<close>

definition init :: "state \<Rightarrow> state result" where
  "init s =
     (let s1 = s\<lparr>nav_toggle := querySelector selectors_toggle [] s\<rparr>;
          s2 = s1\<lparr>nav_nav := querySelector selectors_nav [] s1\<rparr>
      in if nav_toggle s2 = None \<or> nav_nav s2 = None then Returns s2
         else and_then (bindEvents s2) setupAccessibility)"

section \<open>The lazy loader\<close>

text \<open>\<^verbatim>\<open>lazyLoad.loadImage\<close>, lines 238-245, on the image element it is given.
  \<^verbatim>\<open>img.dataset.src\<close> reads the attribute \<^verbatim>\<open>data-src\<close>; a missing attribute and the empty
  string are both falsy. \<^verbatim>\<open>img.src = src\<close> writes the attribute \<^verbatim>\<open>src\<close>.\<close>

definition loadImage :: "element \<Rightarrow> element" where
  "loadImage img =
     (case attrs img ''data-src'' of
        None \<Rightarrow> img
      | Some src \<Rightarrow>
          if src = [] then img
          else el_classList_add classes_loaded
                 (el_removeAttribute ''data-src'' (el_setAttribute ''src'' src img)))"

section \<open>The event loop\<close>

text \<open>Event dispatch as the DOM does it: the listeners registered on the current target
  for the event's type run in registration order; an exception in one listener is reported
  and the next one runs on the state the exception left. \<^verbatim>\<open>stopPropagation\<close> lets the
  listeners of the current target finish and ends the walk. The walk goes from the target
  through its ancestors to the document and then to the window.\<close>

fun run_listeners ::
  "(evtarget \<times> string \<times> handler) list \<Rightarrow> evtarget \<Rightarrow> event \<Rightarrow> state \<Rightarrow> event \<times> state" where
  "run_listeners [] cur e s = (e, s)"
| "run_listeners ((tg, ty, h) # ls) cur e s =
     (if tg = cur \<and> ty = etype e then
        (case run_handler h e s of (e', r) \<Rightarrow> run_listeners ls cur e' (state_of r))
      else run_listeners ls cur e s)"

fun propagate ::
  "(evtarget \<times> string \<times> handler) list \<Rightarrow> evtarget list \<Rightarrow> event \<Rightarrow> state \<Rightarrow> event \<times> state" where
  "propagate L [] e s = (e, s)"
| "propagate L (cur # rest) e s =
     (case run_listeners L cur e s of
        (e', s') \<Rightarrow> if propagationStopped e' then (e', s') else propagate L rest e' s')"

fun event_path :: "evtarget \<Rightarrow> evtarget list" where
  "event_path Window = [Window]"
| "event_path (Node n) = map Node (rev (prefixes n)) @ [Window]"

definition new_event :: "string \<Rightarrow> evtarget \<Rightarrow> string \<Rightarrow> event" where
  "new_event ty tg k =
     \<lparr>etype = ty, target = tg, key = k, propagationStopped = False, defaultPrevented = False\<rparr>"

definition dispatchEvent :: "event \<Rightarrow> state \<Rightarrow> state" where
  "dispatchEvent e s = snd (propagate (listeners s) (event_path (target e)) e s)"

text \<open>The timer queue: of the pending timers whose time has come, the one due first runs
  first (the older one on a tie); it leaves the table before its callback runs.\<close>

fun earliest :: "nat \<times> nat \<times> callback \<Rightarrow> (nat \<times> nat \<times> callback) list \<Rightarrow> nat \<times> nat \<times> callback" where
  "earliest m [] = m"
| "earliest m (x # xs) = earliest (if fst (snd x) < fst (snd m) then x else m) xs"

definition next_due :: "state \<Rightarrow> (nat \<times> nat \<times> callback) option" where
  "next_due s =
     (case filter (\<lambda>tm. fst (snd tm) \<le> clock s) (timers s) of
        [] \<Rightarrow> None
      | x # xs \<Rightarrow> Some (earliest x xs))"

fun run_callback :: "callback \<Rightarrow> state \<Rightarrow> state result" where
  "run_callback (FocusCb firstLink) s = Returns (focus firstLink s)"
| "run_callback LaterCb s = later onResize s"

definition fire_one :: "nat \<times> nat \<times> callback \<Rightarrow> state \<Rightarrow> state" where
  "fire_one tm s =
     state_of (run_callback (snd (snd tm))
                (s\<lparr>timers := filter (\<lambda>x. fst x \<noteq> fst tm) (timers s),
                   fired := fired s @ [snd (snd tm)]\<rparr>))"

function fire_due :: "state \<Rightarrow> state" where
  "fire_due s = (case next_due s of None \<Rightarrow> s | Some tm \<Rightarrow> fire_due (fire_one tm s))"
  by pat_completeness auto
termination
proof (relation "measure (\<lambda>s. length (timers s))")
  show "wf (measure (\<lambda>s. length (timers s)))"
    by simp
next
  fix s :: state and tm :: "nat \<times> nat \<times> callback"
  assume nd: "next_due s = Some tm"
  have mem: "earliest m xs \<in> set (m # xs)" for m :: "nat \<times> nat \<times> callback" and xs
    by (induction xs arbitrary: m) (auto split: if_splits)
  obtain x xs where f: "filter (\<lambda>tm. fst (snd tm) \<le> clock s) (timers s) = x # xs"
    and tm: "tm = earliest x xs"
    using nd by (auto simp: next_due_def split: list.splits)
  have "tm \<in> set (filter (\<lambda>tm. fst (snd tm) \<le> clock s) (timers s))"
    unfolding f tm by (rule mem)
  then have "tm \<in> set (timers s)"
    by simp
  then have less: "length (filter (\<lambda>x. fst x \<noteq> fst tm) (timers s)) < length (timers s)"
    by (intro length_filter_less[of tm]) auto
  have keep: "length (timers (state_of (run_callback cb u))) \<le> length (timers u)"
    for cb and u :: state
  proof (cases cb)
    case (FocusCb n)
    then show ?thesis by (simp add: focus_def)
  next
    case LaterCb
    have "length (filter P (timers u)) \<le> length (timers u)" for P
      by simp
    then show ?thesis
      using LaterCb
      by (auto simp: later_def onResize_def closeMenu_def clearTimeout_def Let_def
            classList_remove_def setAttribute_def update_elem_def
          split: option.splits)
  qed
  show "(fire_one tm s, s) \<in> measure (\<lambda>s. length (timers s))"
    using less keep[of "snd (snd tm)"
        "s\<lparr>timers := filter (\<lambda>x. fst x \<noteq> fst tm) (timers s), fired := fired s @ [snd (snd tm)]\<rparr>"]
    by (simp add: fire_one_def)
qed

text \<open>What the page lives through: clicks and key presses at an element, a resize of the
  viewport to a new width, and time passing.\<close>

datatype step = Click node | Keydown string node | Resize int | Tick nat

fun exec :: "step \<Rightarrow> state \<Rightarrow> state" where
  "exec (Click x) s = dispatchEvent (new_event ''click'' (Node x) []) s"
| "exec (Keydown k x) s = dispatchEvent (new_event ''keydown'' (Node x) k) s"
| "exec (Resize w) s = dispatchEvent (new_event ''resize'' Window []) (s\<lparr>innerWidth := w\<rparr>)"
| "exec (Tick d) s = fire_due (s\<lparr>clock := clock s + d\<rparr>)"

fun run :: "step list \<Rightarrow> state \<Rightarrow> state" where
  "run [] s = s"
| "run (x # xs) s = run xs (exec x s)"

text \<open>Direct calls of the three operations of the controller.\<close>

datatype call = Open | Close | Toggle

fun do_call :: "call \<Rightarrow> state \<Rightarrow> state result" where
  "do_call Open s = openMenu s"
| "do_call Close s = closeMenu s"
| "do_call Toggle s = toggleMenu s"

fun run_calls :: "call list \<Rightarrow> state \<Rightarrow> state result" where
  "run_calls [] s = Returns s"
| "run_calls (c # cs) s = and_then (do_call c s) (run_calls cs)"

section \<open>The notions the properties are stated with\<close>

text \<open>The invariant of the menu state: the flag and its four mirrors agree.\<close>

definition consistent :: "node \<Rightarrow> node \<Rightarrow> state \<Rightarrow> bool" where
  "consistent t n s =
     ((isOpen s = (classes_active \<in> set (classList (elems s n)))) \<and>
      (isOpen s = (classes_menuOpen \<in> set (classList (elems s (body s))))) \<and>
      (isOpen s = (attrs (elems s t) aria_expanded = Some ''true'')) \<and>
      (isOpen s = (attrs (elems s n) aria_hidden = Some ''false'')))"

text \<open>The two states of the menu, with the values \<^verbatim>\<open>openMenu\<close> and \<^verbatim>\<open>closeMenu\<close> write.\<close>

definition in_sync :: "node \<Rightarrow> node \<Rightarrow> state \<Rightarrow> bool" where
  "in_sync t n s =
     (if isOpen s then
        classes_active \<in> set (classList (elems s n)) \<and>
        classes_menuOpen \<in> set (classList (elems s (body s))) \<and>
        attrs (elems s t) aria_expanded = Some ''true'' \<and>
        attrs (elems s n) aria_hidden = Some ''false''
      else
        classes_active \<notin> set (classList (elems s n)) \<and>
        classes_menuOpen \<notin> set (classList (elems s (body s))) \<and>
        attrs (elems s t) aria_expanded = Some ''false'' \<and>
        attrs (elems s n) aria_hidden = Some ''true'')"

text \<open>The menu state as an observer sees it: the flag, the two classes, the two attributes.\<close>

definition menuState ::
  "node \<Rightarrow> node \<Rightarrow> state \<Rightarrow> bool \<times> bool \<times> bool \<times> string option \<times> string option" where
  "menuState t n s =
     (isOpen s,
      classes_active \<in> set (classList (elems s n)),
      classes_menuOpen \<in> set (classList (elems s (body s))),
      attrs (elems s t) aria_expanded,
      attrs (elems s n) aria_hidden)"

text \<open>The writes of \<^verbatim>\<open>closeMenu\<close> and of \<^verbatim>\<open>openMenu\<close> (before its timer) when both handles are
  set.\<close>

definition closed_dom :: "node \<Rightarrow> node \<Rightarrow> state \<Rightarrow> state" where
  "closed_dom t n s =
     setAttribute n aria_hidden ''true'' (setAttribute t aria_expanded ''false''
       (classList_remove (body s) classes_menuOpen
         (classList_remove n classes_active (s\<lparr>isOpen := False\<rparr>))))"

definition opened_dom :: "node \<Rightarrow> node \<Rightarrow> state \<Rightarrow> state" where
  "opened_dom t n s =
     setAttribute n aria_hidden ''false'' (setAttribute t aria_expanded ''true''
       (classList_add (body s) classes_menuOpen
         (classList_add n classes_active (s\<lparr>isOpen := True\<rparr>))))"

text \<open>The listeners \<^verbatim>\<open>init\<close> registers when it finds the toggle \<open>t\<close> and the links \<open>links\<close>,
  in registration order.\<close>

definition registered :: "node \<Rightarrow> node list \<Rightarrow> (evtarget \<times> string \<times> handler) list" where
  "registered t links =
     (Node t, ''click'', ToggleClick) #
     map (\<lambda>l. (Node l, ''click'', LinkClick)) links @
     [(Node [], ''click'', DocClick), (Node [], ''keydown'', DocKeydown),
      (Window, ''resize'', Debounced 150)] @
     map (\<lambda>(l, i). (Node l, ''keydown'', LinkKeydown links i)) (zip links [0..<length links])"

text \<open>A page on which the controller has been set up: \<open>t\<close> is the toggle, \<open>n\<close> the menu
  container, \<open>links\<close> the nav links found inside it.\<close>

definition ready :: "node \<Rightarrow> node \<Rightarrow> node list \<Rightarrow> state \<Rightarrow> bool" where
  "ready t n links s =
     (nav_toggle s = Some t \<and> nav_nav s = Some n \<and> t \<noteq> [] \<and>
      list_all (strict_prefix n) links \<and> listeners s = registered t links)"

text \<open>The listeners of one target for one event type, and running them in order.\<close>

definition handlers_at :: "(evtarget \<times> string \<times> handler) list \<Rightarrow> evtarget \<Rightarrow> string \<Rightarrow> handler list" where
  "handlers_at L cur ty = map (\<lambda>x. snd (snd x)) (filter (\<lambda>x. fst x = cur \<and> fst (snd x) = ty) L)"

fun run_handlers :: "handler list \<Rightarrow> event \<Rightarrow> state \<Rightarrow> event \<times> state" where
  "run_handlers [] e s = (e, s)"
| "run_handlers (h # hs) e s =
     (case run_handler h e s of (e', r) \<Rightarrow> run_handlers hs e' (state_of r))"

text \<open>An element and its subtree leave the document.\<close>

definition removeNode :: "node \<Rightarrow> state \<Rightarrow> state" where
  "removeNode x s = s\<lparr>nodes := filter (\<lambda>y. \<not> prefix x y) (nodes s)\<rparr>"

text \<open>A burst of resize events: each resize to a width is followed by a gap in milliseconds.\<close>

fun burst :: "(int \<times> nat) list \<Rightarrow> step list" where
  "burst [] = []"
| "burst ((w, gap) # rest) = Resize w # Tick gap # burst rest"

text \<open>The timer table is well formed: ids are not reused, and the pending timer of the
  debounced resize listener, if any, is the one \<^verbatim>\<open>timeout\<close> names.\<close>

definition timers_ok :: "state \<Rightarrow> bool" where
  "timers_ok s =
     (distinct (map fst (timers s)) \<and>
      list_all (\<lambda>tm. fst tm < nextTimer s \<and>
                     ((snd (snd tm) = LaterCb) = (timeout s = Some (fst tm)))) (timers s))"

definition pending_later :: "state \<Rightarrow> (nat \<times> nat \<times> callback) list" where
  "pending_later s = filter (\<lambda>tm. snd (snd tm) = LaterCb) (timers s)"

text \<open>A small page: \<^verbatim>\<open>html\<close> at \<open>[0]\<close>, \<^verbatim>\<open>body\<close> at \<open>[0,0]\<close> holding the toggle button
  \<open>[0,0,0]\<close>, the menu container \<open>[0,0,1]\<close> with two nav links, and \<^verbatim>\<open>main\<close> at \<open>[0,0,2]\<close>;
  the viewport is 375 pixels wide.\<close>

definition page_elems :: "node \<Rightarrow> element" where
  "page_elems x =
     \<lparr>classList =
        (if x = [0,0,0] then [selectors_toggle]
         else if x = [0,0,1] then [selectors_nav]
         else if x = [0,0,1,0] \<or> x = [0,0,1,1] then [selectors_navLinks]
         else []),
      attrs = Map.empty\<rparr>"

definition page :: state where
  "page =
     \<lparr>nodes = [[0], [0,0], [0,0,0], [0,0,1], [0,0,1,0], [0,0,1,1], [0,0,2]],
      elems = page_elems, body = [0,0], innerWidth = 375, focused = None,
      nav_toggle = None, nav_nav = None, isOpen = False, listeners = [], timers = [],
      nextTimer = 1, clock = 0, timeout = None, fired = []\<rparr>"

text \<open>The last step of \<^verbatim>\<open>openMenu\<close> (lines 189-192): the first nav link is looked up and, if there
  is one, the focus transfer is scheduled 100 ms ahead.\<close>

definition schedule_focus :: "node \<Rightarrow> state \<Rightarrow> state" where
  "schedule_focus n u =
     (case querySelector selectors_navLinks n u of
        None \<Rightarrow> u
      | Some firstLink \<Rightarrow> snd (setTimeout (FocusCb firstLink) 100 u))"

definition page_ready :: state where
  "page_ready = state_of (init page)"

definition page_open :: state where
  "page_open = state_of (openMenu page_ready)"

text \<open>The small page without its toggle button, after \<^verbatim>\<open>init\<close> has run on it.\<close>

definition page_not_set_up :: state where
  "page_not_set_up = state_of (init (removeNode [0,0,0] page))"

text \<open>A page whose toggle button lies inside the menu container and carries the class of
  the nav links as well: \<^verbatim>\<open>body\<close> at \<open>[0,0]\<close> holds the menu container \<open>[0,0,0]\<close> with the
  toggle \<open>[0,0,0,0]\<close> and a nav link \<open>[0,0,0,1]\<close>, and \<^verbatim>\<open>main\<close> at \<open>[0,0,1]\<close>; the viewport is
  1024 pixels wide. \<open>inline_open\<close> is that page after \<^verbatim>\<open>init\<close> and \<^verbatim>\<open>openMenu\<close>.\<close>

definition inline_elems :: "node \<Rightarrow> element" where
  "inline_elems x =
     \<lparr>classList =
        (if x = [0,0,0] then [selectors_nav]
         else if x = [0,0,0,0] then [selectors_toggle, selectors_navLinks]
         else if x = [0,0,0,1] then [selectors_navLinks]
         else []),
      attrs = Map.empty\<rparr>"

definition inline_page :: state where
  "inline_page =
     \<lparr>nodes = [[0], [0,0], [0,0,0], [0,0,0,0], [0,0,0,1], [0,0,1]],
      elems = inline_elems, body = [0,0], innerWidth = 1024, focused = None,
      nav_toggle = None, nav_nav = None, isOpen = False, listeners = [], timers = [],
      nextTimer = 1, clock = 0, timeout = None, fired = []\<rparr>"

definition inline_open :: state where
  "inline_open = state_of (openMenu (state_of (init inline_page)))"




section \<open>Basic facts about the DOM operations\<close>

lemmas cfg = classes_active_def classes_menuOpen_def aria_expanded_def aria_hidden_def
  selectors_navLinks_def selectors_toggle_def selectors_nav_def

declare classList_add_def [simp] classList_remove_def [simp] setAttribute_def [simp]

lemma el_simps [simp]:
  "set (classList (el_classList_add c e)) = insert c (set (classList e))"
  "set (classList (el_classList_remove c e)) = set (classList e) - {c}"
  "attrs (el_classList_add c e) = attrs e"
  "attrs (el_classList_remove c e) = attrs e"
  "classList (el_setAttribute a v e) = classList e"
  "attrs (el_setAttribute a v e) = (attrs e)(a \<mapsto> v)"
  by (auto simp: el_classList_add_def el_classList_remove_def el_setAttribute_def)

lemma update_elem_simps [simp]:
  "elems (update_elem n f s) = (elems s)(n := f (elems s n))"
  "nodes (update_elem n f s) = nodes s"
  "body (update_elem n f s) = body s"
  "innerWidth (update_elem n f s) = innerWidth s"
  "focused (update_elem n f s) = focused s"
  "nav_toggle (update_elem n f s) = nav_toggle s"
  "nav_nav (update_elem n f s) = nav_nav s"
  "isOpen (update_elem n f s) = isOpen s"
  "listeners (update_elem n f s) = listeners s"
  "timers (update_elem n f s) = timers s"
  "nextTimer (update_elem n f s) = nextTimer s"
  "clock (update_elem n f s) = clock s"
  "timeout (update_elem n f s) = timeout s"
  "fired (update_elem n f s) = fired s"
  by (simp_all add: update_elem_def)

lemma closed_dom_simps [simp]:
  "nodes (closed_dom t n s) = nodes s"
  "body (closed_dom t n s) = body s"
  "innerWidth (closed_dom t n s) = innerWidth s"
  "focused (closed_dom t n s) = focused s"
  "nav_toggle (closed_dom t n s) = nav_toggle s"
  "nav_nav (closed_dom t n s) = nav_nav s"
  "isOpen (closed_dom t n s) = False"
  "listeners (closed_dom t n s) = listeners s"
  "timers (closed_dom t n s) = timers s"
  "nextTimer (closed_dom t n s) = nextTimer s"
  "clock (closed_dom t n s) = clock s"
  "timeout (closed_dom t n s) = timeout s"
  "fired (closed_dom t n s) = fired s"
  by (simp_all add: closed_dom_def)

lemma opened_dom_simps [simp]:
  "nodes (opened_dom t n s) = nodes s"
  "body (opened_dom t n s) = body s"
  "innerWidth (opened_dom t n s) = innerWidth s"
  "focused (opened_dom t n s) = focused s"
  "nav_toggle (opened_dom t n s) = nav_toggle s"
  "nav_nav (opened_dom t n s) = nav_nav s"
  "isOpen (opened_dom t n s) = True"
  "listeners (opened_dom t n s) = listeners s"
  "timers (opened_dom t n s) = timers s"
  "nextTimer (opened_dom t n s) = nextTimer s"
  "clock (opened_dom t n s) = clock s"
  "timeout (opened_dom t n s) = timeout s"
  "fired (opened_dom t n s) = fired s"
  by (simp_all add: opened_dom_def)

lemma schedule_focus_simps [simp]:
  "nodes (schedule_focus n s) = nodes s"
  "elems (schedule_focus n s) = elems s"
  "body (schedule_focus n s) = body s"
  "innerWidth (schedule_focus n s) = innerWidth s"
  "focused (schedule_focus n s) = focused s"
  "nav_toggle (schedule_focus n s) = nav_toggle s"
  "nav_nav (schedule_focus n s) = nav_nav s"
  "isOpen (schedule_focus n s) = isOpen s"
  "listeners (schedule_focus n s) = listeners s"
  "clock (schedule_focus n s) = clock s"
  "timeout (schedule_focus n s) = timeout s"
  "fired (schedule_focus n s) = fired s"
  by (simp_all add: schedule_focus_def setTimeout_def split: option.split)

section \<open>The three operations on a page with both handles\<close>

lemma closeMenu_ready:
  "nav_toggle s = Some t \<Longrightarrow> nav_nav s = Some n \<Longrightarrow> closeMenu s = Returns (closed_dom t n s)"
  by (simp add: closeMenu_def closed_dom_def Let_def)

lemma openMenu_ready:
  "nav_toggle s = Some t \<Longrightarrow> nav_nav s = Some n \<Longrightarrow>
   openMenu s = Returns (schedule_focus n (opened_dom t n s))"
  by (simp add: openMenu_def opened_dom_def schedule_focus_def Let_def split: option.split)

lemma in_sync_closed: "in_sync t n (closed_dom t n s)"
  by (simp add: in_sync_def) (simp add: closed_dom_def cfg)

lemma in_sync_opened: "in_sync t n (schedule_focus n (opened_dom t n s))"
  by (simp add: in_sync_def) (simp add: opened_dom_def cfg)

lemma in_sync_consistent: "in_sync t n s \<Longrightarrow> consistent t n s"
  by (auto simp: in_sync_def consistent_def split: if_splits)

lemma in_sync_menuState:
  "in_sync t n s \<Longrightarrow>
   menuState t n s =
     (if isOpen s then (True, True, True, Some ''true'', Some ''false'')
      else (False, False, False, Some ''false'', Some ''true''))"
  by (simp add: in_sync_def menuState_def split: if_splits)

lemma do_call_ready:
  assumes "nav_toggle s = Some t" "nav_nav s = Some n"
  shows "\<exists>s'. do_call c s = Returns s' \<and> nav_toggle s' = Some t \<and> nav_nav s' = Some n \<and>
              in_sync t n s'"
  using assms
  by (cases c)
     (simp_all add: toggleMenu_def closeMenu_ready openMenu_ready in_sync_closed in_sync_opened)

lemma run_calls_ready:
  "nav_toggle s = Some t \<Longrightarrow> nav_nav s = Some n \<Longrightarrow> cs \<noteq> [] \<Longrightarrow>
   \<exists>s'. run_calls cs s = Returns s' \<and> nav_toggle s' = Some t \<and> nav_nav s' = Some n \<and>
        in_sync t n s'"
proof (induction cs arbitrary: s)
  case Nil
  then show ?case by simp
next
  case (Cons c cs)
  obtain s1 where s1: "do_call c s = Returns s1" "nav_toggle s1 = Some t" "nav_nav s1 = Some n"
      "in_sync t n s1"
    using do_call_ready[OF Cons.prems(1,2)] by blast
  show ?case
  proof (cases "cs = []")
    case True
    with s1 show ?thesis by simp
  next
    case False
    from Cons.IH[OF s1(2,3) False] s1(1) show ?thesis by simp
  qed
qed

section \<open>Setting up the controller\<close>

lemma qsa_cong:
  assumes "nodes s' = nodes s" and "\<And>x. classList (elems s' x) = classList (elems s x)"
  shows "querySelectorAll c x s' = querySelectorAll c x s"
proof -
  have "selected c x s' = selected c x s"
    by (rule ext) (simp add: selected_def assms)
  then show ?thesis
    by (simp add: querySelectorAll_def assms)
qed

lemma qs_cong:
  assumes "nodes s' = nodes s" and "\<And>x. classList (elems s' x) = classList (elems s x)"
  shows "querySelector c x s' = querySelector c x s"
proof -
  have "selected c x s' = selected c x s"
    by (rule ext) (simp add: selected_def assms)
  then show ?thesis
    by (simp add: querySelector_def assms)
qed

lemma fold_on_links:
  "fold (\<lambda>link. on (Some (Node link)) ty h) links s =
   s\<lparr>listeners := listeners s @ map (\<lambda>l. (Node l, ty, h)) links\<rparr>"
  by (induction links arbitrary: s) (simp_all add: on_def)

lemma fold_on_indexed:
  "fold (\<lambda>(link, index). on (Some (Node link)) ty (f index)) zs s =
   s\<lparr>listeners := listeners s @ map (\<lambda>(l, i). (Node l, ty, f i)) zs\<rparr>"
  by (induction zs arbitrary: s) (auto simp: on_def)

lemma bindEvents_found:
  assumes "nav_toggle s = Some t" "nav_nav s = Some n"
  shows "bindEvents s = Returns (s\<lparr>listeners := listeners s @
           (Node t, ''click'', ToggleClick) #
           map (\<lambda>l. (Node l, ''click'', LinkClick)) (querySelectorAll selectors_navLinks n s) @
           [(Node [], ''click'', DocClick), (Node [], ''keydown'', DocKeydown),
            (Window, ''resize'', Debounced 150)]\<rparr>)"
proof -
  have q: "querySelectorAll selectors_navLinks n (s\<lparr>listeners := ls\<rparr>) =
        querySelectorAll selectors_navLinks n s" for ls
    by (rule qsa_cong) simp_all
  show ?thesis
    using assms by (simp add: bindEvents_def Let_def on_def fold_on_links q)
qed

lemma setupAccessibility_found:
  assumes "nav_toggle s = Some t" "nav_nav s = Some n"
  shows "setupAccessibility s =
     Returns ((setAttribute n aria_hidden ''true'' (setAttribute t aria_expanded ''false'' s))
        \<lparr>listeners := listeners s @
           map (\<lambda>(l, i). (Node l, ''keydown'', LinkKeydown (querySelectorAll selectors_navLinks n s) i))
             (zip (querySelectorAll selectors_navLinks n s)
                  [0..<length (querySelectorAll selectors_navLinks n s)])\<rparr>)"
proof -
  have q: "querySelectorAll selectors_navLinks n
             (setAttribute n a v (setAttribute t b w s)) =
        querySelectorAll selectors_navLinks n s" for a v b w
    by (rule qsa_cong) simp_all
  show ?thesis
    using assms
    by (simp add: setupAccessibility_def Let_def q[simplified] fold_on_indexed)
qed

lemma init_found:
  assumes t: "querySelector selectors_toggle [] s = Some t"
    and n: "querySelector selectors_nav [] s = Some n"
  shows "\<exists>s1. init s = Returns s1 \<and> nav_toggle s1 = Some t \<and> nav_nav s1 = Some n \<and>
           listeners s1 = listeners s @ registered t (querySelectorAll selectors_navLinks n s) \<and>
           isOpen s1 = isOpen s \<and> nodes s1 = nodes s \<and> body s1 = body s \<and>
           timers s1 = timers s \<and> nextTimer s1 = nextTimer s \<and> timeout s1 = timeout s \<and>
           innerWidth s1 = innerWidth s \<and> clock s1 = clock s \<and> fired s1 = fired s \<and>
           focused s1 = focused s \<and>
           elems s1 = elems (setAttribute n aria_hidden ''true''
                              (setAttribute t aria_expanded ''false'' s))"
proof -
  let ?s2 = "s\<lparr>nav_toggle := Some t, nav_nav := Some n\<rparr>"
  have q1: "querySelector selectors_nav [] (s\<lparr>nav_toggle := v\<rparr>) = querySelector selectors_nav [] s"
    for v
    by (rule qs_cong) simp_all
  have q2: "querySelectorAll selectors_navLinks n (u\<lparr>listeners := ls\<rparr>) =
        querySelectorAll selectors_navLinks n u" for ls u
    by (rule qsa_cong) simp_all
  have q3: "querySelectorAll selectors_navLinks n ?s2 = querySelectorAll selectors_navLinks n s"
    by (rule qsa_cong) simp_all
  have i: "init s = and_then (bindEvents ?s2) setupAccessibility"
    using t n by (simp add: init_def Let_def q1)
  show ?thesis
    unfolding i
    by (simp add: bindEvents_found[of ?s2 t n] setupAccessibility_found[of _ t n] q2 q3
          registered_def)
qed

lemma page_queries:
  "querySelector selectors_toggle [] page = Some [0,0,0]"
  "querySelector selectors_nav [] page = Some [0,0,1]"
  "querySelectorAll selectors_navLinks [0,0,1] page = [[0,0,1,0],[0,0,1,1]]"
  by (simp_all add: querySelector_def querySelectorAll_def selected_def page_def page_elems_def cfg)

lemma page_ready_handles:
  "nav_toggle page_ready = Some [0,0,0]" "nav_nav page_ready = Some [0,0,1]"
  using init_found[OF page_queries(1,2)] by (auto simp: page_ready_def)

lemma page_open_eq:
  "page_open = schedule_focus [0,0,1] (opened_dom [0,0,0] [0,0,1] page_ready)"
  by (simp add: page_open_def openMenu_ready[OF page_ready_handles])

lemma page_open_handles:
  "nav_toggle page_open = Some [0,0,0]" "nav_nav page_open = Some [0,0,1]" "isOpen page_open"
  by (simp_all add: page_open_eq page_ready_handles)

lemma page_open_in_sync: "in_sync [0,0,0] [0,0,1] page_open"
  unfolding page_open_eq by (rule in_sync_opened)

section \<open>The invariant of the menu state\<close>

text \<open>
  C1. On a page where setup found the toggle and the menu container, after every call of
  a sequence of \<^verbatim>\<open>openMenu\<close>, \<^verbatim>\<open>closeMenu\<close> and \<^verbatim>\<open>toggleMenu\<close> calls the call has returned
  and the flag \<open>isOpen\<close> agrees with each of its four mirrors: the class \<^verbatim>\<open>active\<close> on the
  container, the class \<^verbatim>\<open>menu-open\<close> on the body, \<^verbatim>\<open>aria-expanded = "true"\<close> on the toggle
  and \<^verbatim>\<open>aria-hidden = "false"\<close> on the container. The sequence \<open>cs\<close> is any non-empty one,
  so the statement covers the state after each call of a longer sequence. The toggle, the
  container and the body may be the same element.
\<close>

theorem mirrors_consistent_after_every_call:
  assumes "nav_toggle s = Some t" and "nav_nav s = Some n" and "cs \<noteq> []"
  shows "\<exists>s'. run_calls cs s = Returns s' \<and> consistent t n s'"
  using run_calls_ready[OF assms] in_sync_consistent by blast

theorem mirrors_consistent_after_every_call_witness:
  "nav_toggle page_ready = Some [0,0,0] \<and> nav_nav page_ready = Some [0,0,1] \<and>
   [Open, Toggle, Toggle, Close, Open] \<noteq> [] \<and>
   (\<exists>s'. run_calls [Open, Toggle, Toggle, Close, Open] page_ready = Returns s' \<and>
         consistent [0,0,0] [0,0,1] s')"
  using mirrors_consistent_after_every_call[of page_ready "[0,0,0]" "[0,0,1]"
      "[Open, Toggle, Toggle, Close, Open]"]
  by (simp add: page_ready_handles)

section \<open>Toggling twice\<close>

text \<open>
  C5. From either state of the menu, open or closed with the mirrors in step, two calls of
  \<^verbatim>\<open>toggleMenu\<close> in a row both return and bring the menu state (the flag, the two classes
  and the two attribute values) back to what it was.
\<close>

theorem toggle_twice_restores:
  assumes "nav_toggle s = Some t" and "nav_nav s = Some n" and "in_sync t n s"
  shows "\<exists>s1 s2. toggleMenu s = Returns s1 \<and> toggleMenu s1 = Returns s2 \<and>
               menuState t n s2 = menuState t n s"
proof (cases "isOpen s")
  case True
  let ?s1 = "closed_dom t n s"
  let ?s2 = "schedule_focus n (opened_dom t n ?s1)"
  have 1: "toggleMenu s = Returns ?s1"
    using True assms(1,2) by (simp add: toggleMenu_def closeMenu_ready)
  have 2: "toggleMenu ?s1 = Returns ?s2"
    using assms(1,2) by (simp add: toggleMenu_def openMenu_ready)
  have "menuState t n ?s2 = menuState t n s"
    using True assms(3) by (simp add: in_sync_menuState[OF in_sync_opened] in_sync_menuState)
  with 1 2 show ?thesis by blast
next
  case False
  let ?s1 = "schedule_focus n (opened_dom t n s)"
  let ?s2 = "closed_dom t n ?s1"
  have 1: "toggleMenu s = Returns ?s1"
    using False assms(1,2) by (simp add: toggleMenu_def openMenu_ready)
  have 2: "toggleMenu ?s1 = Returns ?s2"
    using assms(1,2) by (simp add: toggleMenu_def closeMenu_ready)
  have "menuState t n ?s2 = menuState t n s"
    using False assms(3) by (simp add: in_sync_menuState[OF in_sync_closed] in_sync_menuState)
  with 1 2 show ?thesis by blast
qed

theorem toggle_twice_restores_witness:
  "nav_toggle page_open = Some [0,0,0] \<and> nav_nav page_open = Some [0,0,1] \<and>
   in_sync [0,0,0] [0,0,1] page_open \<and>
   (\<exists>s1 s2. toggleMenu page_open = Returns s1 \<and> toggleMenu s1 = Returns s2 \<and>
            menuState [0,0,0] [0,0,1] s2 = menuState [0,0,0] [0,0,1] page_open)"
  using toggle_twice_restores[of page_open "[0,0,0]" "[0,0,1]"]
    page_open_handles(1,2) page_open_in_sync
  by blast

section \<open>The lazy loader\<close>

text \<open>
  C10. \<^verbatim>\<open>loadImage\<close> is idempotent: on an image without a \<^verbatim>\<open>data-src\<close> attribute it changes
  nothing; a call that finds a non-empty \<^verbatim>\<open>data-src\<close> copies it to \<^verbatim>\<open>src\<close>, removes
  \<^verbatim>\<open>data-src\<close> and adds the class \<^verbatim>\<open>loaded\<close>; and a second call on the same element
  leaves the element (its \<^verbatim>\<open>src\<close>, its other attributes and its classes) as the first call
  left it.
\<close>

theorem loadImage_idempotent:
  "(attrs img ''data-src'' = None \<longrightarrow> loadImage img = img) \<and>
   (\<forall>v. attrs img ''data-src'' = Some v \<and> v \<noteq> [] \<longrightarrow>
        attrs (loadImage img) ''data-src'' = None \<and>
        attrs (loadImage img) ''src'' = Some v \<and>
        classes_loaded \<in> set (classList (loadImage img))) \<and>
   loadImage (loadImage img) = loadImage img"
  by (auto simp: loadImage_def el_classList_add_def el_removeAttribute_def el_setAttribute_def
      split: option.split)

theorem loadImage_idempotent_witness:
  "attrs \<lparr>classList = [''hero''], attrs = [''data-src'' \<mapsto> ''a.png'']\<rparr> ''data-src'' = Some ''a.png'' \<and>
   attrs (loadImage \<lparr>classList = [''hero''], attrs = [''data-src'' \<mapsto> ''a.png'']\<rparr>) ''src''
     = Some ''a.png'' \<and>
   attrs (loadImage \<lparr>classList = [''hero''], attrs = [''data-src'' \<mapsto> ''a.png'']\<rparr>) ''data-src''
     = None \<and>
   loadImage (loadImage \<lparr>classList = [''hero''], attrs = [''data-src'' \<mapsto> ''a.png'']\<rparr>)
     = loadImage \<lparr>classList = [''hero''], attrs = [''data-src'' \<mapsto> ''a.png'']\<rparr>"
  using loadImage_idempotent[of "\<lparr>classList = [''hero''], attrs = [''data-src'' \<mapsto> ''a.png'']\<rparr>"]
  by simp



section \<open>Running listeners\<close>

lemma run_handler_event [simp]:
  "etype (fst (run_handler h e s)) = etype e"
  "target (fst (run_handler h e s)) = target e"
  "key (fst (run_handler h e s)) = key e"
  by (cases h; simp)+

lemma run_listeners_eq:
  "run_listeners L cur e s = run_handlers (handlers_at L cur (etype e)) e s"
proof (induction L arbitrary: e s)
  case Nil
  then show ?case by (simp add: handlers_at_def)
next
  case (Cons a L)
  obtain tg ty h where a: "a = (tg, ty, h)" by (cases a)
  obtain e' r where r: "run_handler h e s = (e', r)" by (cases "run_handler h e s")
  have "etype e' = etype e"
    using run_handler_event(1)[of h e s] r by simp
  then show ?case
    using Cons.IH[of e' "state_of r"] Cons.IH[of e s] a r
    by (simp add: handlers_at_def)
qed

lemma run_handlers_inert:
  "(\<And>h. h \<in> set hs \<Longrightarrow> run_handler h e s = (e, Returns s)) \<Longrightarrow> run_handlers hs e s = (e, s)"
  by (induction hs) simp_all

lemma propagate_inert:
  "(\<And>cur. cur \<in> set p1 \<Longrightarrow> run_listeners L cur e s = (e, s)) \<Longrightarrow> \<not> propagationStopped e \<Longrightarrow>
   propagate L (p1 @ p2) e s = propagate L p2 e s"
  by (induction p1) simp_all

lemma handlers_at_mem: "h \<in> set (handlers_at L cur ty) \<longleftrightarrow> (cur, ty, h) \<in> set L"
  by (force simp: handlers_at_def)

lemma zip_upt_mem:
  "(l, i) \<in> set (zip links [0..<length links]) \<longleftrightarrow> i < length links \<and> links ! i = l"
  by (auto simp: set_zip)

lemma registered_mem:
  "(cur, ty, h) \<in> set (registered t links) \<longleftrightarrow>
   (cur = Node t \<and> ty = ''click'' \<and> h = ToggleClick) \<or>
   (cur \<in> Node ` set links \<and> ty = ''click'' \<and> h = LinkClick) \<or>
   (cur = Node [] \<and> ty = ''click'' \<and> h = DocClick) \<or>
   (cur = Node [] \<and> ty = ''keydown'' \<and> h = DocKeydown) \<or>
   (cur = Window \<and> ty = ''resize'' \<and> h = Debounced 150) \<or>
   (\<exists>i < length links. cur = Node (links ! i) \<and> ty = ''keydown'' \<and> h = LinkKeydown links i)"
proof -
  have a: "(cur, ty, h) \<in> set (map (\<lambda>l. (Node l, ''click'', LinkClick)) links) \<longleftrightarrow>
        cur \<in> Node ` set links \<and> ty = ''click'' \<and> h = LinkClick"
    by auto
  have b: "(cur, ty, h) \<in> set (map (\<lambda>(l, i). (Node l, ''keydown'', LinkKeydown links i))
                                 (zip links [0..<length links])) \<longleftrightarrow>
        (\<exists>i < length links. cur = Node (links ! i) \<and> ty = ''keydown'' \<and> h = LinkKeydown links i)"
  proof
    assume "(cur, ty, h) \<in> set (map (\<lambda>(l, i). (Node l, ''keydown'', LinkKeydown links i))
                                 (zip links [0..<length links]))"
    then obtain l i where "(l, i) \<in> set (zip links [0..<length links])"
      "(cur, ty, h) = (Node l, ''keydown'', LinkKeydown links i)"
      by auto
    then show "\<exists>i < length links. cur = Node (links ! i) \<and> ty = ''keydown'' \<and> h = LinkKeydown links i"
      by (auto simp: zip_upt_mem)
  next
    assume "\<exists>i < length links. cur = Node (links ! i) \<and> ty = ''keydown'' \<and> h = LinkKeydown links i"
    then obtain i where i: "i < length links" "h = LinkKeydown links i" "cur = Node (links ! i)"
      "ty = ''keydown''" by blast
    then have "(links ! i, i) \<in> set (zip links [0..<length links])"
      by (simp add: zip_upt_mem)
    then have "(\<lambda>(l, i). (Node l, ''keydown'', LinkKeydown links i)) (links ! i, i)
          \<in> set (map (\<lambda>(l, i). (Node l, ''keydown'', LinkKeydown links i))
                                 (zip links [0..<length links]))"
      unfolding set_map by (rule imageI)
    then show "(cur, ty, h) \<in> set (map (\<lambda>(l, i). (Node l, ''keydown'', LinkKeydown links i))
                                 (zip links [0..<length links]))"
      using i by simp
  qed
  show ?thesis
    by (simp only: registered_def list.set set_append Un_iff insert_iff empty_iff a b
          prod.inject simp_thms disj_assoc)
qed

lemma handlers_at_doc:
  assumes "t \<noteq> []" "[] \<notin> set links"
  shows "handlers_at (registered t links) (Node []) ''click'' = [DocClick]"
    and "handlers_at (registered t links) (Node []) ''keydown'' = [DocKeydown]"
proof -
  have 1: "filter (\<lambda>x. fst x = Node [] \<and> P x) (map (\<lambda>l. (Node l, f l)) links) = []" for P f
    using assms(2) by (induction links) auto
  have 2: "filter (\<lambda>x. fst x = Node [] \<and> P x) (map (\<lambda>(l, i). (Node l, f i)) (zip links js)) = []"
    for P f js
    using assms(2) by (auto simp: filter_empty_conv dest: set_zip_leftD)
  show "handlers_at (registered t links) (Node []) ''click'' = [DocClick]"
    using assms(1) by (simp add: handlers_at_def registered_def 1 2)
  show "handlers_at (registered t links) (Node []) ''keydown'' = [DocKeydown]"
    using assms(1) by (simp add: handlers_at_def registered_def 1 2)
qed

lemma handlers_at_window:
  "handlers_at (registered t links) Window ty = (if ty = ''resize'' then [Debounced 150] else [])"
proof -
  have 1: "filter (\<lambda>x. fst x = Window \<and> P x) (map (\<lambda>l. (Node l, f l)) ls) = []" for P f ls
    by (induction ls) auto
  have 2: "filter (\<lambda>x. fst x = Window \<and> P x) (map (\<lambda>(l, i). (Node l, f i)) zs) = []"
    for P f zs
    by (induction zs) auto
  show ?thesis
    by (simp add: handlers_at_def registered_def 1 2)
qed

section \<open>The path of an event\<close>

lemma prefixes_shape:
  "\<exists>ps. prefixes x = [] # ps \<and> [] \<notin> set ps \<and> (\<forall>y \<in> set ps. prefix y x)"
proof (cases x)
  case Nil
  then show ?thesis by simp
next
  case (Cons a xs)
  have "\<forall>y \<in> set (map ((#) a) (prefixes xs)). prefix y x"
    using Cons by (auto simp: in_set_prefixes)
  then show ?thesis
    using Cons by auto
qed

lemma event_path_shape:
  "\<exists>ps. event_path (Node x) = map Node ps @ [Node [], Window] \<and> [] \<notin> set ps \<and>
        (\<forall>y \<in> set ps. prefix y x)"
proof -
  obtain ps where ps: "prefixes x = [] # ps" "[] \<notin> set ps" "\<forall>y \<in> set ps. prefix y x"
    using prefixes_shape by blast
  have "event_path (Node x) = map Node (rev ps) @ [Node [], Window]"
    by (simp add: ps(1))
  with ps(2,3) show ?thesis
    by (intro exI[of _ "rev ps"]) simp
qed

section \<open>The listeners on a page that is set up\<close>

lemma run_handler_ready:
  assumes "nav_toggle s = Some t" "nav_nav s = Some n"
  shows "run_handler ToggleClick e s =
           (e\<lparr>propagationStopped := True\<rparr>,
            Returns (if isOpen s then closed_dom t n s else schedule_focus n (opened_dom t n s)))"
    and "run_handler LinkClick e s = (e, Returns (if isMobile s then closed_dom t n s else s))"
    and "run_handler DocClick e s =
           (e, Returns (if isOpen s \<and> \<not> contains t (target e) \<and> \<not> contains n (target e)
                        then closed_dom t n s else s))"
    and "run_handler DocKeydown e s =
           (e, Returns (if key e = ''Escape'' \<and> isOpen s then focus t (closed_dom t n s) else s))"
  using assms
  by (simp_all add: toggleMenu_def closeMenu_ready openMenu_ready)

lemma ready_no_root: "ready t n links s \<Longrightarrow> [] \<notin> set links"
  by (auto simp: ready_def list_all_iff)

text \<open>An event at an element whose listeners below the document do nothing is handled by
  the listeners of the document alone.\<close>

lemma dispatch_document_only:
  assumes r: "ready t n links s"
    and ty: "ty = ''click'' \<or> ty = ''keydown''"
    and inert: "\<And>y h. y \<noteq> [] \<Longrightarrow> prefix y x \<Longrightarrow> (Node y, ty, h) \<in> set (registered t links) \<Longrightarrow>
                  run_handler h (new_event ty (Node x) k) s = (new_event ty (Node x) k, Returns s)"
  shows "dispatchEvent (new_event ty (Node x) k) s =
           state_of (snd (run_handler (if ty = ''click'' then DocClick else DocKeydown)
                           (new_event ty (Node x) k) s))"
proof -
  let ?e = "new_event ty (Node x) k"
  let ?L = "registered t links"
  obtain ps where ps: "event_path (Node x) = map Node ps @ [Node [], Window]" "[] \<notin> set ps"
    "\<forall>y \<in> set ps. prefix y x"
    using event_path_shape by blast
  have L: "listeners s = ?L" and t: "t \<noteq> []"
    using r by (simp_all add: ready_def)
  have e: "etype ?e = ty" "target ?e = Node x" "\<not> propagationStopped ?e"
    by (simp_all add: new_event_def)
  have below: "run_listeners ?L cur ?e s = (?e, s)" if "cur \<in> set (map Node ps)" for cur
  proof -
    from that have "cur \<in> Node ` set ps" by simp
    then obtain y where y: "cur = Node y" "y \<in> set ps" by (rule imageE)
    then have "y \<noteq> []" "prefix y x" using ps(2,3) by auto
    then show ?thesis
      unfolding run_listeners_eq e y
      by (intro run_handlers_inert inert) (simp_all add: handlers_at_mem)
  qed
  have doc: "handlers_at ?L (Node []) ty = [if ty = ''click'' then DocClick else DocKeydown]"
    using ty handlers_at_doc[OF t ready_no_root[OF r]] by auto
  have win: "handlers_at ?L Window ty = []"
    using ty by (auto simp: handlers_at_window)
  obtain e' r' where h: "run_handler (if ty = ''click'' then DocClick else DocKeydown) ?e s = (e', r')"
    by (cases "run_handler (if ty = ''click'' then DocClick else DocKeydown) ?e s")
  have e': "etype e' = ty"
    using run_handler_event(1)[of "if ty = ''click'' then DocClick else DocKeydown" ?e s] h e
    by simp
  have "propagate ?L (event_path (Node x)) ?e s = propagate ?L [Node [], Window] ?e s"
    unfolding ps(1) using below e(3) by (rule propagate_inert)
  also have "snd \<dots> = state_of r'"
    by (simp add: run_listeners_eq e doc h e' win)
  finally show ?thesis
    by (simp add: dispatchEvent_def e L h)
qed


lemma ready_handles:
  assumes "ready t n links s"
  shows "nav_toggle s = Some t" and "nav_nav s = Some n"
  using assms by (simp_all add: ready_def)

lemma isMobile_closed [simp]: "isMobile (closed_dom t n s) = isMobile s"
  by (simp add: isMobile_def)

lemma ready_closed [simp]: "ready t n links (closed_dom t' n' s) = ready t n links s"
  by (simp add: ready_def)

section \<open>Keys\<close>

lemma escape_dispatch:
  assumes r: "ready t n links s"
  shows "exec (Keydown ''Escape'' x) s = (if isOpen s then focus t (closed_dom t n s) else s)"
proof -
  let ?e = "new_event ''keydown'' (Node x) ''Escape''"
  have k: "key ?e = ''Escape''" by (simp add: new_event_def)
  have inert: "run_handler h ?e s = (?e, Returns s)"
    if "y \<noteq> []" "(Node y, ''keydown'', h) \<in> set (registered t links)" for y h
  proof -
    from that obtain i where "h = LinkKeydown links i"
      by (auto simp: registered_mem)
    then show ?thesis by (simp add: k)
  qed
  have "dispatchEvent ?e s = state_of (snd (run_handler DocKeydown ?e s))"
    using dispatch_document_only[OF r, of "''keydown''" x "''Escape''"] inert by simp
  then show ?thesis
    using ready_handles[OF r] by (simp add: closeMenu_ready k)
qed

section \<open>Clicks\<close>

lemma click_handlers:
  assumes "(cur, ''click'', h) \<in> set (registered t links)"
  shows "(h = ToggleClick \<and> cur = Node t) \<or> (h = LinkClick \<and> cur \<in> Node ` set links) \<or>
         (h = DocClick \<and> cur = Node [])"
  using assms by (simp add: registered_mem) blast

lemma run_handlers_closing:
  assumes "nav_toggle s = Some t" "nav_nav s = Some n" "isMobile s"
    and "set hs \<subseteq> {LinkClick, DocClick}" and "\<not> propagationStopped e"
  shows "case run_handlers hs e s of (e', s') \<Rightarrow>
           nav_toggle s' = Some t \<and> nav_nav s' = Some n \<and> isMobile s' \<and>
           \<not> propagationStopped e' \<and> etype e' = etype e \<and> listeners s' = listeners s \<and>
           (\<not> isOpen s \<or> LinkClick \<in> set hs \<longrightarrow> \<not> isOpen s')"
  using assms
proof (induction hs arbitrary: e s)
  case Nil
  then show ?case by simp
next
  case (Cons h hs)
  from Cons.prems(4) have h: "h = LinkClick \<or> h = DocClick" and hs: "set hs \<subseteq> {LinkClick, DocClick}"
    by auto
  obtain e1 r1 where r1: "run_handler h e s = (e1, r1)" by (cases "run_handler h e s")
  let ?s1 = "state_of r1"
  have 1: "e1 = e" "nav_toggle ?s1 = Some t" "nav_nav ?s1 = Some n" "isMobile ?s1"
    "listeners ?s1 = listeners s" "\<not> isOpen s \<longrightarrow> \<not> isOpen ?s1" "h = LinkClick \<longrightarrow> \<not> isOpen ?s1"
    using h r1 Cons.prems(1,2,3) by (auto simp: closeMenu_ready)
  from Cons.IH[OF 1(2) 1(3) 1(4) hs, of e1] Cons.prems(5) 1(1)
  have "case run_handlers hs e1 ?s1 of (e', s') \<Rightarrow>
           nav_toggle s' = Some t \<and> nav_nav s' = Some n \<and> isMobile s' \<and>
           \<not> propagationStopped e' \<and> etype e' = etype e1 \<and> listeners s' = listeners ?s1 \<and>
           (\<not> isOpen ?s1 \<or> LinkClick \<in> set hs \<longrightarrow> \<not> isOpen s')"
    by simp
  then show ?case
    using r1 1 h by (auto split: prod.splits)
qed

lemma propagate_closing:
  assumes "ready t n links s" "isMobile s" "\<not> propagationStopped e" "etype e = ''click''"
    and "Node t \<notin> set path"
    and "\<not> isOpen s \<or> (\<exists>l \<in> set links. Node l \<in> set path)"
  shows "\<not> isOpen (snd (propagate (registered t links) path e s))"
  using assms
proof (induction path arbitrary: e s)
  case Nil
  then show ?case by simp
next
  case (Cons cur rest)
  let ?L = "registered t links"
  let ?hs = "handlers_at ?L cur ''click''"
  have sub: "set ?hs \<subseteq> {LinkClick, DocClick}"
  proof
    fix h assume "h \<in> set ?hs"
    then have "(cur, ''click'', h) \<in> set ?L" by (simp add: handlers_at_mem)
    from click_handlers[OF this] Cons.prems(5) show "h \<in> {LinkClick, DocClick}" by auto
  qed
  obtain e1 s1 where r1: "run_handlers ?hs e s = (e1, s1)" by (cases "run_handlers ?hs e s")
  have hd: "nav_toggle s = Some t" "nav_nav s = Some n"
    using Cons.prems(1) by (simp_all add: ready_def)
  from run_handlers_closing[OF hd Cons.prems(2) sub Cons.prems(3)] r1
  have 1: "nav_toggle s1 = Some t" "nav_nav s1 = Some n" "isMobile s1" "\<not> propagationStopped e1"
    "etype e1 = etype e" "listeners s1 = listeners s"
    "\<not> isOpen s \<or> LinkClick \<in> set ?hs \<longrightarrow> \<not> isOpen s1"
    by simp_all
  have rd: "ready t n links s1"
    using Cons.prems(1) 1 by (simp add: ready_def)
  have cond: "\<not> isOpen s1 \<or> (\<exists>l \<in> set links. Node l \<in> set rest)"
  proof (cases "\<not> isOpen s \<or> (\<exists>l \<in> set links. cur = Node l)")
    case True
    then have "\<not> isOpen s \<or> LinkClick \<in> set ?hs"
      by (auto simp: handlers_at_mem registered_mem)
    with 1(7) show ?thesis by simp
  next
    case False
    with Cons.prems(6) show ?thesis by auto
  qed
  have "\<not> isOpen (snd (propagate ?L rest e1 s1))"
    using Cons.IH[OF rd 1(3) 1(4) _ _ cond] 1(5) Cons.prems(4,5) by simp
  then show ?case
    using r1 1(4) Cons.prems(4) by (simp add: run_listeners_eq)
qed

lemma click_in_link_mobile:
  assumes "ready t n links s" "l \<in> set links" "prefix l x" "\<not> prefix t x" "isMobile s"
  shows "\<not> isOpen (exec (Click x) s)"
proof -
  let ?e = "new_event ''click'' (Node x) []"
  have "Node l \<in> set (event_path (Node x))"
    using assms(3) by (simp add: image_iff)
  then have p: "Node t \<notin> set (event_path (Node x))"
    "\<exists>l \<in> set links. Node l \<in> set (event_path (Node x))"
    using assms(2,4) by (auto simp: image_iff)
  have "\<not> isOpen (snd (propagate (registered t links) (event_path (Node x)) ?e s))"
    using assms(1,5) p by (intro propagate_closing) (simp_all add: new_event_def)
  then show ?thesis
    using assms(1) by (simp add: dispatchEvent_def ready_def new_event_def)
qed

lemma click_decided_by_document:
  assumes r: "ready t n links s" and t: "\<not> prefix t x"
    and l: "isMobile s \<Longrightarrow> \<forall>l \<in> set links. \<not> prefix l x"
  shows "exec (Click x) s = (if isOpen s \<and> \<not> prefix n x then closed_dom t n s else s)"
proof -
  let ?e = "new_event ''click'' (Node x) []"
  have inert: "run_handler h ?e s = (?e, Returns s)"
    if "y \<noteq> []" "prefix y x" "(Node y, ''click'', h) \<in> set (registered t links)" for y h
  proof -
    from click_handlers[OF that(3)] that(1,2) t have h: "h = LinkClick" "y \<in> set links"
      by auto
    with l that(2) have "\<not> isMobile s" by auto
    then show ?thesis
      using h ready_handles[OF r] by (simp add: closeMenu_ready)
  qed
  have "dispatchEvent ?e s = state_of (snd (run_handler DocClick ?e s))"
    using dispatch_document_only[OF r, of "''click''" x "[]"] inert by simp
  then show ?thesis
    using ready_handles[OF r] t by (simp add: closeMenu_ready new_event_def)
qed

section \<open>The example page\<close>

lemma page_ready_ready: "ready [0,0,0] [0,0,1] [[0,0,1,0],[0,0,1,1]] page_ready"
proof -
  obtain s1 where s1: "init page = Returns s1" "nav_toggle s1 = Some [0,0,0]"
    "nav_nav s1 = Some [0,0,1]"
    "listeners s1 = listeners page @ registered [0,0,0] (querySelectorAll selectors_navLinks [0,0,1] page)"
    using init_found[OF page_queries(1,2)] by blast
  have "listeners page = []" by (simp add: page_def)
  with s1 show ?thesis
    by (simp add: page_ready_def ready_def page_queries(3)[simplified])
qed

lemma page_ready_fields:
  "innerWidth page_ready = 375" "\<not> isOpen page_ready" "timers page_ready = []"
  "nextTimer page_ready = 1" "clock page_ready = 0" "timeout page_ready = None"
  "fired page_ready = []" "focused page_ready = None"
  "nodes page_ready = [[0], [0,0], [0,0,0], [0,0,1], [0,0,1,0], [0,0,1,1], [0,0,2]]"
  using init_found[OF page_queries(1,2)] by (auto simp: page_ready_def page_def)

lemma page_open_ready: "ready [0,0,0] [0,0,1] [[0,0,1,0],[0,0,1,1]] page_open"
  using page_ready_ready by (simp add: page_open_eq ready_def)

lemma page_open_mobile: "innerWidth page_open = 375" "isMobile page_open"
  by (simp_all add: page_open_eq page_ready_fields isMobile_def breakpoints_mobile_def)

section \<open>The Escape key\<close>

text \<open>
  C4. On a page that is set up, an Escape key press at any element, while the menu is open,
  closes the menu (the flag and all four mirrors) and calls \<^verbatim>\<open>focus\<close> on the toggle; while
  the menu is closed it changes nothing at all, the focus included.
\<close>

theorem escape_closes_and_refocuses:
  assumes "ready t n links s"
  shows "(isOpen s \<longrightarrow>
            \<not> isOpen (exec (Keydown ''Escape'' x) s) \<and>
            focused (exec (Keydown ''Escape'' x) s) = Some t \<and>
            in_sync t n (exec (Keydown ''Escape'' x) s)) \<and>
         (\<not> isOpen s \<longrightarrow> exec (Keydown ''Escape'' x) s = s)"
proof -
  have "in_sync t n (focus t (closed_dom t n s))"
    using in_sync_closed[of t n s] by (simp add: in_sync_def focus_def)
  then show ?thesis
    unfolding escape_dispatch[OF assms] by (simp add: focus_def)
qed

theorem escape_closes_and_refocuses_witness:
  "ready [0,0,0] [0,0,1] [[0,0,1,0],[0,0,1,1]] page_open \<and> isOpen page_open \<and>
   \<not> isOpen (exec (Keydown ''Escape'' [0,0,1,0]) page_open) \<and>
   focused (exec (Keydown ''Escape'' [0,0,1,0]) page_open) = Some [0,0,0] \<and>
   ready [0,0,0] [0,0,1] [[0,0,1,0],[0,0,1,1]] page_ready \<and> \<not> isOpen page_ready \<and>
   exec (Keydown ''Escape'' [0,0,2]) page_ready = page_ready"
  using escape_closes_and_refocuses[OF page_open_ready, of "[0,0,1,0]"]
    escape_closes_and_refocuses[OF page_ready_ready, of "[0,0,2]"]
    page_open_ready page_ready_ready page_open_handles(3) page_ready_fields(2)
  by blast

section \<open>Clicks on nav links\<close>

lemma inline_queries:
  "querySelector selectors_toggle [] inline_page = Some [0,0,0,0]"
  "querySelector selectors_nav [] inline_page = Some [0,0,0]"
  "querySelectorAll selectors_navLinks [0,0,0] inline_page = [[0,0,0,0],[0,0,0,1]]"
  by (simp_all add: querySelector_def querySelectorAll_def selected_def inline_page_def
        inline_elems_def cfg)

lemma inline_open_eq:
  "inline_open =
     schedule_focus [0,0,0] (opened_dom [0,0,0,0] [0,0,0] (state_of (init inline_page)))"
  using init_found[OF inline_queries(1,2)]
  by (auto simp: inline_open_def openMenu_ready)

lemma inline_open_ready:
  "ready [0,0,0,0] [0,0,0] [[0,0,0,0],[0,0,0,1]] inline_open"
  "isOpen inline_open" "innerWidth inline_open = 1024"
proof -
  obtain s1 where s1: "init inline_page = Returns s1" "nav_toggle s1 = Some [0,0,0,0]"
    "nav_nav s1 = Some [0,0,0]"
    "listeners s1 = listeners inline_page @
       registered [0,0,0,0] (querySelectorAll selectors_navLinks [0,0,0] inline_page)"
    "innerWidth s1 = innerWidth inline_page"
    using init_found[OF inline_queries(1,2)] by blast
  have "listeners inline_page = []" "innerWidth inline_page = 1024"
    by (simp_all add: inline_page_def)
  with s1 show "ready [0,0,0,0] [0,0,0] [[0,0,0,0],[0,0,0,1]] inline_open"
    "isOpen inline_open" "innerWidth inline_open = 1024"
    by (simp_all add: inline_open_eq ready_def inline_queries(3)[simplified])
qed

text \<open>
  C3, as the claim states it, fails: nothing keeps the toggle apart from the nav links. On
  the page whose toggle button lies inside the menu container and carries the class of the
  nav links, \<^verbatim>\<open>init\<close> sets the controller up with the toggle as the first nav link. At 1024
  pixels, with the menu open, a click on that nav link runs the listener of the toggle
  (lines 116-119) and ends with the menu closed.
\<close>

theorem navlink_inside_toggle_counterexample:
  "ready [0,0,0,0] [0,0,0] [[0,0,0,0],[0,0,0,1]] inline_open \<and> isOpen inline_open \<and>
   [0,0,0,0] \<in> set (querySelectorAll selectors_navLinks [0,0,0] inline_page) \<and>
   768 \<le> innerWidth inline_open \<and>
   \<not> isOpen (exec (Click [0,0,0,0]) inline_open)"
proof -
  note r = inline_open_ready(1)
  have L: "listeners inline_open = registered [0,0,0,0] [[0,0,0,0],[0,0,0,1]]"
    using r by (simp add: ready_def)
  have "exec (Click [0,0,0,0]) inline_open = closed_dom [0,0,0,0] [0,0,0] inline_open"
    using inline_open_ready(2,3) ready_handles[OF r]
    by (simp add: dispatchEvent_def new_event_def L registered_def toggleMenu_def
          closeMenu_ready isMobile_def breakpoints_mobile_def)
  then show ?thesis
    using inline_open_ready inline_queries(3) by simp
qed

text \<open>
  C3, amended. On a page that is set up, with the menu open, a click on a nav link (or on
  anything inside one) whose target is not inside the toggle closes the menu when the
  viewport is narrower than 768 pixels and leaves it open when the viewport is 768 pixels
  wide or wider.
\<close>

theorem navlink_click_closes_on_mobile_only:
  assumes "ready t n links s" and "l \<in> set links" and "prefix l x" and "\<not> prefix t x"
    and "isOpen s"
  shows "(innerWidth s < 768 \<longrightarrow> \<not> isOpen (exec (Click x) s)) \<and>
         (768 \<le> innerWidth s \<longrightarrow> isOpen (exec (Click x) s))"
proof (intro conjI impI)
  assume "innerWidth s < 768"
  then have "isMobile s" by (simp add: isMobile_def breakpoints_mobile_def)
  with assms show "\<not> isOpen (exec (Click x) s)"
    by (intro click_in_link_mobile)
next
  assume "768 \<le> innerWidth s"
  then have m: "\<not> isMobile s" by (simp add: isMobile_def breakpoints_mobile_def)
  have "strict_prefix n l"
    using assms(1,2) by (simp add: ready_def list_all_iff)
  with assms(3) have "prefix n x"
    by (meson prefix_order.less_imp_le prefix_order.trans)
  then show "isOpen (exec (Click x) s)"
    using click_decided_by_document[OF assms(1,4)] m assms(5) by simp
qed

theorem navlink_click_closes_on_mobile_only_witness:
  "ready [0,0,0] [0,0,1] [[0,0,1,0],[0,0,1,1]] page_open \<and> isOpen page_open \<and>
   innerWidth page_open = 375 \<and> \<not> isOpen (exec (Click [0,0,1,1]) page_open) \<and>
   ready [0,0,0] [0,0,1] [[0,0,1,0],[0,0,1,1]] (page_open\<lparr>innerWidth := 1024\<rparr>) \<and>
   isOpen (exec (Click [0,0,1,1]) (page_open\<lparr>innerWidth := 1024\<rparr>))"
proof -
  have r: "ready [0,0,0] [0,0,1] [[0,0,1,0],[0,0,1,1]] (page_open\<lparr>innerWidth := 1024\<rparr>)"
    using page_open_ready by (simp add: ready_def)
  have o: "isOpen (page_open\<lparr>innerWidth := 1024\<rparr>)"
    using page_open_handles(3) by simp
  show ?thesis
    using navlink_click_closes_on_mobile_only[OF page_open_ready, of "[0,0,1,1]" "[0,0,1,1]"]
      navlink_click_closes_on_mobile_only[OF r, of "[0,0,1,1]" "[0,0,1,1]"]
      page_open_ready page_open_handles(3) page_open_mobile(1) r o
    by simp
qed

section \<open>Clicks that reach the document\<close>

text \<open>
  C2, as the claim states it, fails: on the example page, 375 pixels wide, with the menu
  open, a click on the first nav link has its target inside the menu container and yet
  ends with the menu closed, because the link's own listener (lines 123-127) closes the
  menu before the event reaches the document.
\<close>

theorem click_inside_menu_counterexample:
  "isOpen page_open \<and> nav_nav page_open = Some [0,0,1] \<and> contains [0,0,1] (Node [0,0,1,0]) \<and>
   \<not> isOpen (exec (Click [0,0,1,0]) page_open)"
  using click_in_link_mobile[OF page_open_ready, of "[0,0,1,0]" "[0,0,1,0]"]
    page_open_handles page_open_mobile(2)
  by simp

text \<open>
  C2, amended. With the menu open, the click listener of the document closes the menu
  exactly when the target is outside both the toggle and the menu container. A click
  whose target is not inside the toggle and, on a viewport narrower than 768 pixels, not
  inside a nav link is decided by that listener alone: the event closes the menu
  exactly when its target is outside both elements, so such a click inside the menu
  container leaves the menu open.
\<close>

theorem document_click_closes_outside:
  assumes "ready t n links s" and "isOpen s"
  shows "(\<not> isOpen (state_of (snd (run_handler DocClick (new_event ''click'' (Node x) []) s)))
            \<longleftrightarrow> \<not> contains t (Node x) \<and> \<not> contains n (Node x)) \<and>
         (\<not> contains t (Node x) \<and>
          (innerWidth s < 768 \<longrightarrow> (\<forall>l \<in> set links. \<not> contains l (Node x))) \<longrightarrow>
            (\<not> isOpen (exec (Click x) s)
               \<longleftrightarrow> \<not> contains t (Node x) \<and> \<not> contains n (Node x)))"
proof -
  have 1: "\<not> isOpen (state_of (snd (run_handler DocClick (new_event ''click'' (Node x) []) s)))
            \<longleftrightarrow> \<not> contains t (Node x) \<and> \<not> contains n (Node x)"
    using assms(2) ready_handles[OF assms(1)] by (simp add: closeMenu_ready new_event_def)
  have 2: "\<not> isOpen (exec (Click x) s) \<longleftrightarrow> \<not> contains t (Node x) \<and> \<not> contains n (Node x)"
    if "\<not> contains t (Node x)" "innerWidth s < 768 \<longrightarrow> (\<forall>l \<in> set links. \<not> contains l (Node x))"
  proof -
    have "exec (Click x) s = (if isOpen s \<and> \<not> prefix n x then closed_dom t n s else s)"
      using that by (intro click_decided_by_document[OF assms(1)])
        (simp_all add: isMobile_def breakpoints_mobile_def)
    then show ?thesis
      using that(1) assms(2) by simp
  qed
  from 1 2 show ?thesis by blast
qed

theorem document_click_closes_outside_witness:
  "ready [0,0,0] [0,0,1] [[0,0,1,0],[0,0,1,1]] page_open \<and> isOpen page_open \<and>
   \<not> contains [0,0,0] (Node [0,0,2]) \<and> \<not> contains [0,0,1] (Node [0,0,2]) \<and>
   \<not> isOpen (exec (Click [0,0,2]) page_open) \<and>
   contains [0,0,1] (Node [0,0,1]) \<and> isOpen (exec (Click [0,0,1]) page_open)"
  using document_click_closes_outside[OF page_open_ready page_open_handles(3), of "[0,0,2]"]
    document_click_closes_outside[OF page_open_ready page_open_handles(3), of "[0,0,1]"]
    page_open_ready page_open_handles(3)
  by simp



declare fire_due.simps [simp del]

section \<open>A page without the controller\<close>

lemma propagate_no_listeners: "propagate [] path e s = (e, s)"
  by (induction path arbitrary: e s) simp_all

lemma fire_due_no_timers: "timers s = [] \<Longrightarrow> fire_due s = s"
  by (subst fire_due.simps) (simp add: next_due_def)

lemma exec_idle:
  assumes "listeners s = []" "timers s = []"
  shows "\<exists>w c. exec st s = s\<lparr>innerWidth := w, clock := c\<rparr>"
proof (cases st)
  case (Click x)
  have "exec st s = s\<lparr>innerWidth := innerWidth s, clock := clock s\<rparr>"
    using assms Click by (simp add: dispatchEvent_def propagate_no_listeners)
  then show ?thesis by blast
next
  case (Keydown k x)
  have "exec st s = s\<lparr>innerWidth := innerWidth s, clock := clock s\<rparr>"
    using assms Keydown by (simp add: dispatchEvent_def propagate_no_listeners)
  then show ?thesis by blast
next
  case (Resize w)
  have "exec st s = s\<lparr>innerWidth := w, clock := clock s\<rparr>"
    using assms Resize by (simp add: dispatchEvent_def propagate_no_listeners)
  then show ?thesis by blast
next
  case (Tick d)
  have "exec st s = s\<lparr>innerWidth := innerWidth s, clock := clock s + d\<rparr>"
    using assms Tick by (simp add: fire_due_no_timers)
  then show ?thesis by blast
qed

lemma run_idle:
  "listeners s = [] \<Longrightarrow> timers s = [] \<Longrightarrow> \<exists>w c. run steps s = s\<lparr>innerWidth := w, clock := c\<rparr>"
proof (induction steps arbitrary: s)
  case Nil
  have "run [] s = s\<lparr>innerWidth := innerWidth s, clock := clock s\<rparr>" by simp
  then show ?case by blast
next
  case (Cons st steps)
  obtain w c where 1: "exec st s = s\<lparr>innerWidth := w, clock := c\<rparr>"
    using exec_idle[OF Cons.prems] by blast
  obtain w' c' where 2: "run steps (exec st s) = (exec st s)\<lparr>innerWidth := w', clock := c'\<rparr>"
    using Cons.IH[of "exec st s"] Cons.prems 1 by auto
  have "run (st # steps) s = s\<lparr>innerWidth := w', clock := c'\<rparr>"
    using 1 2 by simp
  then show ?case by blast
qed

lemma init_absent:
  assumes "querySelector selectors_toggle [] s = None \<or> querySelector selectors_nav [] s = None"
  shows "init s = Returns (s\<lparr>nav_toggle := querySelector selectors_toggle [] s,
                              nav_nav := querySelector selectors_nav [] s\<rparr>)"
proof -
  have q1: "querySelector selectors_nav [] (s\<lparr>nav_toggle := v\<rparr>) = querySelector selectors_nav [] s"
    for v
    by (rule qs_cong) simp_all
  show ?thesis
    using assms by (auto simp: init_def Let_def q1)
qed

text \<open>The object \<^verbatim>\<open>navigation\<close> itself stays exported as \<^verbatim>\<open>window.LMF.navigation\<close>
  (line 456, for debugging): a direct call of an operation from another script, with a
  handle that is \<^verbatim>\<open>null\<close>, throws.\<close>

lemma openMenu_without_container:
  "nav_nav s = None \<Longrightarrow> openMenu s = Throws TypeError (s\<lparr>isOpen := True\<rparr>)"
  by (simp add: openMenu_def)

lemma call_without_handle:
  assumes "nav_toggle s = None \<or> nav_nav s = None"
  shows "\<exists>s'. do_call c s = Throws TypeError s' \<and>
              isOpen s' = (c = Open \<or> c = Toggle \<and> \<not> isOpen s)"
proof -
  have o: "\<exists>s'. openMenu s = Throws TypeError s' \<and> isOpen s'"
    using assms by (auto simp: openMenu_def Let_def update_elem_def split: option.splits)
  have c: "\<exists>s'. closeMenu s = Throws TypeError s' \<and> \<not> isOpen s'"
    using assms by (auto simp: closeMenu_def Let_def update_elem_def split: option.splits)
  show ?thesis
  proof (cases c)
    case Open
    with o show ?thesis by simp
  next
    case Close
    with c show ?thesis by simp
  next
    case Toggle
    with o c show ?thesis by (simp add: toggleMenu_def)
  qed
qed

lemma page_without_toggle:
  "querySelector selectors_toggle [] (removeNode [0,0,0] page) = None"
  "listeners (removeNode [0,0,0] page) = []" "timers (removeNode [0,0,0] page) = []"
  by (simp_all add: querySelector_def selected_def removeNode_def page_def page_elems_def cfg)

lemma page_not_set_up_eq:
  "page_not_set_up = (removeNode [0,0,0] page)\<lparr>nav_toggle := None, nav_nav := Some [0,0,1]\<rparr>"
proof -
  have q: "querySelector selectors_nav [] (removeNode [0,0,0] page) = Some [0,0,1]"
    by (simp add: querySelector_def selected_def removeNode_def page_def page_elems_def cfg)
  show ?thesis
    unfolding page_not_set_up_def
    using init_absent[of "removeNode [0,0,0] page"] page_without_toggle(1) q by simp
qed

text \<open>
  C8, as the claim states it, fails in its last part: the operations stay reachable through
  the exported object. On the small page without its toggle button \<^verbatim>\<open>init\<close> returns without
  setting anything up; a call of \<^verbatim>\<open>openMenu\<close> afterwards sets \<open>isOpen\<close>, adds the class
  \<^verbatim>\<open>active\<close> to the menu container and the class \<^verbatim>\<open>menu-open\<close> to the body, and then throws
  at \<^verbatim>\<open>this.toggle.setAttribute\<close> (line 185).
\<close>

theorem direct_call_counterexample:
  "querySelector selectors_toggle [] (removeNode [0,0,0] page) = None \<and>
   \<not> isOpen page_not_set_up \<and>
   classes_active \<notin> set (classList (elems page_not_set_up [0,0,1])) \<and>
   classes_menuOpen \<notin> set (classList (elems page_not_set_up [0,0])) \<and>
   openMenu page_not_set_up =
     Throws TypeError (classList_add [0,0] classes_menuOpen
                        (classList_add [0,0,1] classes_active (page_not_set_up\<lparr>isOpen := True\<rparr>))) \<and>
   isOpen (state_of (openMenu page_not_set_up)) \<and>
   classes_active \<in> set (classList (elems (state_of (openMenu page_not_set_up)) [0,0,1])) \<and>
   classes_menuOpen \<in> set (classList (elems (state_of (openMenu page_not_set_up)) [0,0]))"
proof -
  have f: "nav_toggle page_not_set_up = None" "nav_nav page_not_set_up = Some [0,0,1]"
    "body page_not_set_up = [0,0]" "\<not> isOpen page_not_set_up"
    "elems page_not_set_up = page_elems"
    by (simp_all add: page_not_set_up_eq removeNode_def page_def)
  have o: "openMenu page_not_set_up =
     Throws TypeError (classList_add [0,0] classes_menuOpen
                        (classList_add [0,0,1] classes_active (page_not_set_up\<lparr>isOpen := True\<rparr>)))"
    using f(1,2,3) by (simp add: openMenu_def Let_def update_elem_def)
  show ?thesis
    unfolding o using f(4,5) page_without_toggle(1)
    by (simp add: update_elem_def el_classList_add_def page_elems_def cfg)
qed

text \<open>
  C8, amended. If the toggle or the menu container is not found, \<^verbatim>\<open>init\<close> returns having
  only stored the two lookup results: no listener is registered and no class or attribute
  is written. On a page with no other listeners and no pending timers, no click, key
  press, resize or passage of time runs an operation of the controller afterwards: any
  sequence of them leaves the state as \<^verbatim>\<open>init\<close> left it, up to the viewport width and the
  clock. The operations stay callable on the exported object, and every such call of
  \<^verbatim>\<open>openMenu\<close>, \<^verbatim>\<open>closeMenu\<close> or \<^verbatim>\<open>toggleMenu\<close> throws a \<^verbatim>\<open>TypeError\<close>, having written \<open>isOpen\<close>.
\<close>

theorem init_without_elements_is_noop:
  assumes "querySelector selectors_toggle [] s = None \<or> querySelector selectors_nav [] s = None"
  shows "init s = Returns (s\<lparr>nav_toggle := querySelector selectors_toggle [] s,
                              nav_nav := querySelector selectors_nav [] s\<rparr>) \<and>
         listeners (state_of (init s)) = listeners s \<and>
         elems (state_of (init s)) = elems s \<and>
         (listeners s = [] \<and> timers s = [] \<longrightarrow>
            (\<forall>steps. \<exists>w c. run steps (state_of (init s)) =
                              (state_of (init s))\<lparr>innerWidth := w, clock := c\<rparr>)) \<and>
         (\<forall>c. \<exists>s'. do_call c (state_of (init s)) = Throws TypeError s' \<and>
                    isOpen s' = (c = Open \<or> c = Toggle \<and> \<not> isOpen s))"
proof -
  note i = init_absent[OF assms]
  have "\<exists>w c. run steps (state_of (init s)) = (state_of (init s))\<lparr>innerWidth := w, clock := c\<rparr>"
    if "listeners s = []" "timers s = []" for steps
    using that by (intro run_idle) (simp_all add: i)
  moreover have "\<exists>s'. do_call c (state_of (init s)) = Throws TypeError s' \<and>
                    isOpen s' = (c = Open \<or> c = Toggle \<and> \<not> isOpen s)" for c
    using call_without_handle[of "state_of (init s)" c] assms by (simp add: i)
  ultimately show ?thesis
    by (simp add: i)
qed

theorem init_without_elements_is_noop_witness:
  "querySelector selectors_toggle [] (removeNode [0,0,0] page) = None \<and>
   listeners (removeNode [0,0,0] page) = [] \<and> timers (removeNode [0,0,0] page) = [] \<and>
   listeners (state_of (init (removeNode [0,0,0] page))) = [] \<and>
   elems (state_of (init (removeNode [0,0,0] page))) = page_elems \<and>
   (\<exists>w c. run [Click [0,0,1,0], Keydown ''Escape'' [0,0], Resize 1024, Tick 200]
              (state_of (init (removeNode [0,0,0] page))) =
            (state_of (init (removeNode [0,0,0] page)))\<lparr>innerWidth := w, clock := c\<rparr>) \<and>
   (\<exists>s'. do_call Open (state_of (init (removeNode [0,0,0] page))) = Throws TypeError s' \<and>
          isOpen s')"
proof -
  let ?p = "removeNode [0,0,0] page"
  have e: "elems ?p = page_elems"
    by (simp add: removeNode_def page_def)
  have h: "querySelector selectors_toggle [] ?p = None \<or> querySelector selectors_nav [] ?p = None"
    using page_without_toggle(1) by (rule disjI1)
  note t = init_without_elements_is_noop[OF h]
  from t have a: "listeners (state_of (init ?p)) = listeners ?p"
    and b: "elems (state_of (init ?p)) = elems ?p"
    and c: "listeners ?p = [] \<and> timers ?p = [] \<longrightarrow>
            (\<forall>steps. \<exists>w c. run steps (state_of (init ?p)) =
                              (state_of (init ?p))\<lparr>innerWidth := w, clock := c\<rparr>)"
    and d: "\<forall>c. \<exists>s'. do_call c (state_of (init ?p)) = Throws TypeError s' \<and>
                    isOpen s' = (c = Open \<or> c = Toggle \<and> \<not> isOpen ?p)"
    by blast+
  from c page_without_toggle(2,3)
  have "\<exists>w c. run [Click [0,0,1,0], Keydown ''Escape'' [0,0], Resize 1024, Tick 200]
              (state_of (init ?p)) = (state_of (init ?p))\<lparr>innerWidth := w, clock := c\<rparr>"
    by blast
  moreover from d[rule_format, of Open]
  have "\<exists>s'. do_call Open (state_of (init ?p)) = Throws TypeError s' \<and> isOpen s'"
    by (simp only: simp_thms)
  ultimately show ?thesis
    using a b e page_without_toggle by (simp only: simp_thms)
qed

section \<open>The deferred focus transfer\<close>

lemma qs_class_cong:
  assumes "nodes s' = nodes s"
    and "\<And>x. (c \<in> set (classList (elems s' x))) = (c \<in> set (classList (elems s x)))"
  shows "querySelector c ctx s' = querySelector c ctx s"
proof -
  have "selected c ctx s' = selected c ctx s"
    by (rule ext) (simp add: selected_def assms)
  then show ?thesis
    by (simp add: querySelector_def assms)
qed

lemma opened_dom_links:
  "querySelector selectors_navLinks x (opened_dom t n s) = querySelector selectors_navLinks x s"
  by (rule qs_class_cong) (simp_all add: opened_dom_def cfg)

lemma openMenu_timers:
  assumes "nav_toggle s = Some t" "nav_nav s = Some n"
  shows "timers (state_of (openMenu s)) =
           (case querySelector selectors_navLinks n s of
              None \<Rightarrow> timers s
            | Some firstLink \<Rightarrow> timers s @ [(nextTimer s, clock s + 100, FocusCb firstLink)])"
  using assms
  by (simp add: openMenu_ready schedule_focus_def opened_dom_links setTimeout_def
      split: option.split)

lemma tick_single_focus:
  assumes "timers u = [(i, due, FocusCb l)]" "due \<le> clock u + d"
  shows "focused (exec (Tick d) u) = Some l"
    and "fired (exec (Tick d) u) = fired u @ [FocusCb l]"
    and "timers (exec (Tick d) u) = []"
proof -
  let ?u = "u\<lparr>clock := clock u + d\<rparr>"
  have n: "next_due ?u = Some (i, due, FocusCb l)"
    using assms by (simp add: next_due_def)
  have f: "fire_due ?u = fire_one (i, due, FocusCb l) ?u"
    using assms n
    by (subst fire_due.simps, simp, subst fire_due_no_timers) (simp_all add: fire_one_def focus_def)
  show "focused (exec (Tick d) u) = Some l"
    and "fired (exec (Tick d) u) = fired u @ [FocusCb l]"
    and "timers (exec (Tick d) u) = []"
    using assms by (simp_all add: f fire_one_def focus_def)
qed

lemma page_ready_links:
  "querySelector selectors_navLinks [0,0,1] page_ready = Some [0,0,1,0]"
proof -
  obtain s1 where s1: "init page = Returns s1" "nodes s1 = nodes page"
    "elems s1 = elems (setAttribute [0,0,1] aria_hidden ''true''
                        (setAttribute [0,0,0] aria_expanded ''false'' page))"
    using init_found[OF page_queries(1,2)] by blast
  have 1: "querySelector selectors_navLinks [0,0,1] s1 = querySelector selectors_navLinks [0,0,1] page"
    by (rule qs_cong) (simp_all add: s1)
  have 2: "querySelector selectors_navLinks [0,0,1] page = Some [0,0,1,0]"
    by (simp add: querySelector_def selected_def page_def page_elems_def cfg)
  have "page_ready = s1"
    by (simp add: page_ready_def s1(1))
  with 1 2 show ?thesis by simp
qed

lemma page_open_timers: "timers page_open = [(1, 100, FocusCb [0,0,1,0])]"
  using openMenu_timers[OF page_ready_handles]
  by (simp add: page_open_def page_ready_links[simplified] page_ready_fields)

text \<open>
  C7, as the claim states it, fails: the arrow function of line 191 holds no check. On the
  example page the menu is opened (the callback for the first nav link is scheduled), the
  link leaves the document, and 100 ms later the callback runs and calls \<^verbatim>\<open>focus\<close> on the
  link that is no longer there.
\<close>

theorem focus_callback_counterexample:
  "timers (removeNode [0,0,1,0] page_open) = [(1, 100, FocusCb [0,0,1,0])] \<and>
   [0,0,1,0] \<notin> set (nodes (removeNode [0,0,1,0] page_open)) \<and>
   focused (removeNode [0,0,1,0] page_open) = None \<and>
   focused (exec (Tick 100) (removeNode [0,0,1,0] page_open)) = Some [0,0,1,0] \<and>
   fired (exec (Tick 100) (removeNode [0,0,1,0] page_open)) = [FocusCb [0,0,1,0]]"
proof -
  let ?u = "removeNode [0,0,1,0] page_open"
  have t: "timers ?u = [(1, 100, FocusCb [0,0,1,0])]"
    by (simp add: removeNode_def page_open_timers)
  have c: "clock ?u = 0" "fired ?u = []" "focused ?u = None"
    by (simp_all add: removeNode_def page_open_eq page_ready_fields)
  have n: "[0,0,1,0] \<notin> set (nodes ?u)"
    by (simp add: removeNode_def)
  have d: "100 \<le> clock ?u + 100" by simp
  show ?thesis
    using t c n tick_single_focus[OF t d] by simp
qed

text \<open>
  C7, amended. \<^verbatim>\<open>openMenu\<close> checks for the first nav link when it schedules the focus
  transfer: the timer is queued exactly when the lookup at the time of the call finds a
  link, and it captures that element. The callback holds no check of its own: when its
  timer fires, \<^verbatim>\<open>focus\<close> is called on the captured element, whatever the document holds
  then.
\<close>

theorem focus_checked_when_scheduled:
  assumes "nav_toggle s = Some t" and "nav_nav s = Some n"
  shows "timers (state_of (openMenu s)) =
           (case querySelector selectors_navLinks n s of
              None \<Rightarrow> timers s
            | Some firstLink \<Rightarrow> timers s @ [(nextTimer s, clock s + 100, FocusCb firstLink)]) \<and>
         (\<forall>u i due d l. timers u = [(i, due, FocusCb l)] \<and> due \<le> clock u + d \<longrightarrow>
            focused (exec (Tick d) u) = Some l)"
  using openMenu_timers[OF assms] tick_single_focus(1) by blast

theorem focus_checked_when_scheduled_witness:
  "nav_toggle page_ready = Some [0,0,0] \<and> nav_nav page_ready = Some [0,0,1] \<and>
   querySelector selectors_navLinks [0,0,1] page_ready = Some [0,0,1,0] \<and>
   timers (state_of (openMenu page_ready)) = [(1, 100, FocusCb [0,0,1,0])] \<and>
   focused (exec (Tick 100) (state_of (openMenu page_ready))) = Some [0,0,1,0]"
proof -
  note t = focus_checked_when_scheduled[OF page_ready_handles]
  have 1: "timers (state_of (openMenu page_ready)) = [(1, 100, FocusCb [0,0,1,0])]"
    using t by (simp add: page_ready_links[simplified] page_ready_fields)
  have "clock (state_of (openMenu page_ready)) = 0"
    by (simp add: openMenu_ready[OF page_ready_handles] page_ready_fields)
  then have "100 \<le> clock (state_of (openMenu page_ready)) + 100" by simp
  with t 1 have "focused (exec (Tick 100) (state_of (openMenu page_ready))) = Some [0,0,1,0]"
    by blast
  with 1 page_ready_handles page_ready_links show ?thesis by simp
qed



section \<open>Arrow keys\<close>














section \<open>The debounced resize listener\<close>

declare exec.simps [simp del]

lemma resize_exec:
  assumes "ready t n links s"
  shows "exec (Resize w) s = executedFunction 150 (s\<lparr>innerWidth := w\<rparr>)"
proof -
  have L: "listeners (s\<lparr>innerWidth := w\<rparr>) = registered t links"
    using assms by (simp add: ready_def)
  show ?thesis
    by (simp add: exec.simps dispatchEvent_def L new_event_def run_listeners_eq
          handlers_at_window)
qed

lemma executedFunction_fields:
  "timers (executedFunction w u) =
     filter (\<lambda>tm. Some (fst tm) \<noteq> timeout u) (timers u) @ [(nextTimer u, clock u + w, LaterCb)]"
  "nextTimer (executedFunction w u) = Suc (nextTimer u)"
  "timeout (executedFunction w u) = Some (nextTimer u)"
  "fired (executedFunction w u) = fired u"
  "isOpen (executedFunction w u) = isOpen u"
  "innerWidth (executedFunction w u) = innerWidth u"
  "clock (executedFunction w u) = clock u"
  "nav_toggle (executedFunction w u) = nav_toggle u"
  "nav_nav (executedFunction w u) = nav_nav u"
  "listeners (executedFunction w u) = listeners u"
  by (simp_all add: executedFunction_def clearTimeout_def setTimeout_def Let_def
      split: option.split)

lemma executedFunction_ok:
  assumes "timers_ok u"
  shows "timers_ok (executedFunction w u)"
    and "pending_later (executedFunction w u) = [(nextTimer u, clock u + w, LaterCb)]"
proof -
  let ?keep = "filter (\<lambda>tm. Some (fst tm) \<noteq> timeout u) (timers u)"
  have d: "distinct (map fst (timers u))"
    and a: "\<And>tm. tm \<in> set (timers u) \<Longrightarrow>
              fst tm < nextTimer u \<and> ((snd (snd tm) = LaterCb) = (timeout u = Some (fst tm)))"
    using assms by (auto simp: timers_ok_def list_all_iff)
  have k: "snd (snd tm) \<noteq> LaterCb" "fst tm < nextTimer u" if "tm \<in> set ?keep" for tm
    using that a[of tm] by auto
  have "distinct (map fst ?keep)"
    using d by (rule distinct_map_filter)
  moreover have "nextTimer u \<notin> fst ` set ?keep"
  proof
    assume "nextTimer u \<in> fst ` set ?keep"
    then obtain tm where "tm \<in> set ?keep" "fst tm = nextTimer u" by auto
    with k(2)[of tm] show False by simp
  qed
  ultimately have 1: "distinct (map fst (timers (executedFunction w u)))"
    by (simp add: executedFunction_fields)
  have 2: "list_all (\<lambda>tm. fst tm < nextTimer (executedFunction w u) \<and>
                     ((snd (snd tm) = LaterCb) = (timeout (executedFunction w u) = Some (fst tm))))
             (timers (executedFunction w u))"
    unfolding list_all_iff executedFunction_fields
  proof
    fix tm
    assume "tm \<in> set (?keep @ [(nextTimer u, clock u + w, LaterCb)])"
    then consider "tm \<in> set ?keep" | "tm = (nextTimer u, clock u + w, LaterCb)"
      by auto
    then show "fst tm < Suc (nextTimer u) \<and>
               ((snd (snd tm) = LaterCb) = (Some (nextTimer u) = Some (fst tm)))"
    proof cases
      case 1
      from k[OF 1] show ?thesis by simp
    next
      case 2
      then show ?thesis by simp
    qed
  qed
  from 1 2 show "timers_ok (executedFunction w u)"
    by (simp add: timers_ok_def)
  have "filter (\<lambda>tm. snd (snd tm) = LaterCb) ?keep = []"
    using k(1) by (auto simp: filter_empty_conv)
  then show "pending_later (executedFunction w u) = [(nextTimer u, clock u + w, LaterCb)]"
    by (simp add: pending_later_def executedFunction_fields)
qed

section \<open>Firing timers\<close>

lemma earliest_mem: "earliest m xs \<in> set (m # xs)"
  by (induction xs arbitrary: m) (auto split: if_splits)

lemma next_due_SomeD:
  assumes "next_due s = Some tm"
  shows "tm \<in> set (timers s)" and "fst (snd tm) \<le> clock s"
proof -
  obtain x xs where f: "filter (\<lambda>tm. fst (snd tm) \<le> clock s) (timers s) = x # xs"
    and tm: "tm = earliest x xs"
    using assms by (auto simp: next_due_def split: list.splits)
  have "tm \<in> set (filter (\<lambda>tm. fst (snd tm) \<le> clock s) (timers s))"
    unfolding f tm by (rule earliest_mem)
  then show "tm \<in> set (timers s)" and "fst (snd tm) \<le> clock s"
    by simp_all
qed

lemma next_due_None_iff:
  "next_due s = None \<longleftrightarrow> (\<forall>tm \<in> set (timers s). clock s < fst (snd tm))"
proof -
  have "next_due s = None \<longleftrightarrow> filter (\<lambda>tm. fst (snd tm) \<le> clock s) (timers s) = []"
    by (simp add: next_due_def split: list.splits)
  then show ?thesis
    by (simp add: filter_empty_conv not_le)
qed

text \<open>Removing a timer that is not the debounced one keeps the table well formed and
  leaves the debounced timer pending.\<close>

lemma remove_other_timer:
  assumes ok: "timers_ok s" and tm: "tm \<in> set (timers s)" and cb: "snd (snd tm) \<noteq> LaterCb"
    and s': "timers s' = filter (\<lambda>x. fst x \<noteq> fst tm) (timers s)"
      "nextTimer s' = nextTimer s" "timeout s' = timeout s"
  shows "timers_ok s'" and "pending_later s' = pending_later s"
proof -
  have d: "distinct (map fst (timers s))"
    and a: "\<And>x. x \<in> set (timers s) \<Longrightarrow>
              fst x < nextTimer s \<and> ((snd (snd x) = LaterCb) = (timeout s = Some (fst x)))"
    using ok by (auto simp: timers_ok_def list_all_iff)
  show "timers_ok s'"
    using d a by (auto simp: timers_ok_def s' list_all_iff distinct_map_filter)
  have ne: "fst x \<noteq> fst tm" if "x \<in> set (timers s)" "snd (snd x) = LaterCb" for x
    using a[OF that(1)] a[OF tm] cb that(2) by auto
  have "filter (\<lambda>x. snd (snd x) = LaterCb) (filter (\<lambda>x. fst x \<noteq> fst tm) (timers s)) =
        filter (\<lambda>x. fst x \<noteq> fst tm \<and> snd (snd x) = LaterCb) (timers s)"
    by simp
  also have "\<dots> = filter (\<lambda>x. snd (snd x) = LaterCb) (timers s)"
    by (rule filter_cong[OF refl]) (use ne in blast)
  finally have "filter (\<lambda>x. snd (snd x) = LaterCb) (filter (\<lambda>x. fst x \<noteq> fst tm) (timers s)) =
        filter (\<lambda>x. snd (snd x) = LaterCb) (timers s)" .
  then show "pending_later s' = pending_later s"
    by (simp add: pending_later_def s')
qed

lemma count_fired_focus [simp]:
  "count_list (fs @ [FocusCb l]) LaterCb = count_list fs LaterCb"
  "count_list (fs @ [LaterCb]) LaterCb = count_list fs LaterCb + 1"
  by (induction fs) simp_all

lemma fire_one_focus:
  "fire_one (i, d, FocusCb l) s =
     s\<lparr>timers := filter (\<lambda>x. fst x \<noteq> i) (timers s), fired := fired s @ [FocusCb l],
       focused := Some l\<rparr>"
  by (simp add: fire_one_def focus_def)

text \<open>While the debounced timer is not due, firing the due timers runs no resize
  evaluation and changes only the timer table, the log and the focus.\<close>

lemma fire_due_quiet:
  assumes "timers_ok s" and "\<forall>tm \<in> set (pending_later s). clock s < fst (snd tm)"
  shows "timers_ok (fire_due s) \<and> pending_later (fire_due s) = pending_later s \<and>
         count_list (fired (fire_due s)) LaterCb = count_list (fired s) LaterCb \<and>
         (\<exists>T F f. fire_due s = s\<lparr>timers := T, fired := F, focused := f\<rparr>)"
  using assms
proof (induction s rule: fire_due.induct)
  case (1 s)
  show ?case
  proof (cases "next_due s")
    case None
    have "fire_due s = s\<lparr>timers := timers s, fired := fired s, focused := focused s\<rparr>"
      using None by (subst fire_due.simps) simp
    moreover have "fire_due s = s"
      using None by (subst fire_due.simps) simp
    ultimately show ?thesis
      using "1.prems" by metis
  next
    case (Some tm)
    note tm = next_due_SomeD[OF Some]
    have "tm \<notin> set (pending_later s)"
      using "1.prems"(2) tm(2) by auto
    with tm(1) have cb: "snd (snd tm) \<noteq> LaterCb"
      by (simp add: pending_later_def)
    then obtain i d l where t: "tm = (i, d, FocusCb l)"
      by (cases tm; cases "snd (snd tm)") auto
    let ?s1 = "fire_one tm s"
    have s1: "?s1 = s\<lparr>timers := filter (\<lambda>x. fst x \<noteq> i) (timers s),
                          fired := fired s @ [FocusCb l], focused := Some l\<rparr>"
      by (simp add: t fire_one_focus)
    have f1: "timers ?s1 = filter (\<lambda>x. fst x \<noteq> fst tm) (timers s)"
      "nextTimer ?s1 = nextTimer s" "timeout ?s1 = timeout s"
      by (simp_all add: s1) (simp add: t)
    have ok1: "timers_ok ?s1" and pl1: "pending_later ?s1 = pending_later s"
      by (rule remove_other_timer[OF "1.prems"(1) tm(1) cb f1])+
    have q1: "\<forall>x \<in> set (pending_later ?s1). clock ?s1 < fst (snd x)"
      using "1.prems"(2) by (simp add: pl1) (simp add: s1)
    from "1.IH"[OF Some ok1 q1] obtain T F f where
      r: "timers_ok (fire_due ?s1)" "pending_later (fire_due ?s1) = pending_later ?s1"
        "count_list (fired (fire_due ?s1)) LaterCb = count_list (fired ?s1) LaterCb"
        "fire_due ?s1 = ?s1\<lparr>timers := T, fired := F, focused := f\<rparr>"
      by blast
    have fd: "fire_due s = fire_due ?s1"
      using Some by (subst fire_due.simps) simp
    have "fire_due s = s\<lparr>timers := T, fired := F, focused := f\<rparr>"
      unfolding fd r(4) by (simp add: s1)
    moreover have "count_list (fired ?s1) LaterCb = count_list (fired s) LaterCb"
      by (simp add: s1)
    ultimately show ?thesis
      using r(1,2,3) pl1 fd by auto
  qed
qed


lemma remove_timers_ok:
  assumes "timers_ok s" and "timers s' = filter P (timers s)"
    and "nextTimer s' = nextTimer s" and "timeout s' = timeout s"
  shows "timers_ok s'" and "pending_later s' = filter P (pending_later s)"
proof -
  show "timers_ok s'"
    using assms by (auto simp: timers_ok_def list_all_iff distinct_map_filter)
  have "filter (\<lambda>x. snd (snd x) = LaterCb) (filter P (timers s)) =
        filter P (filter (\<lambda>x. snd (snd x) = LaterCb) (timers s))"
    by (simp add: conj_commute)
  then show "pending_later s' = filter P (pending_later s)"
    by (simp add: pending_later_def assms(2))
qed

lemma fire_one_later:
  assumes "nav_toggle s = Some t" "nav_nav s = Some n" "timeout s = Some i"
  shows "timers (fire_one (i, d, LaterCb) s) = filter (\<lambda>x. fst x \<noteq> i) (timers s)"
    and "fired (fire_one (i, d, LaterCb) s) = fired s @ [LaterCb]"
    and "isOpen (fire_one (i, d, LaterCb) s) = (isOpen s \<and> isMobile s)"
    and "nextTimer (fire_one (i, d, LaterCb) s) = nextTimer s"
    and "timeout (fire_one (i, d, LaterCb) s) = timeout s"
    and "clock (fire_one (i, d, LaterCb) s) = clock s"
    and "nav_toggle (fire_one (i, d, LaterCb) s) = Some t"
    and "nav_nav (fire_one (i, d, LaterCb) s) = Some n"
    and "listeners (fire_one (i, d, LaterCb) s) = listeners s"
  using assms
  by (auto simp: fire_one_def later_def clearTimeout_def onResize_def closeMenu_ready
        isMobile_def)

text \<open>When the debounced timer is due, firing the due timers runs the resize evaluation
  exactly once.\<close>

lemma fire_due_later:
  assumes "timers_ok s" and "pending_later s = [(i, d, LaterCb)]" and "d \<le> clock s"
    and "nav_toggle s = Some t" and "nav_nav s = Some n"
  shows "timers_ok (fire_due s) \<and> pending_later (fire_due s) = [] \<and>
         count_list (fired (fire_due s)) LaterCb = count_list (fired s) LaterCb + 1 \<and>
         isOpen (fire_due s) = (isOpen s \<and> isMobile s)"
  using assms
proof (induction s rule: fire_due.induct)
  case (1 s)
  have mem: "(i, d, LaterCb) \<in> set (timers s)"
  proof -
    have "(i, d, LaterCb) \<in> set (pending_later s)" by (simp add: "1.prems"(2))
    then show ?thesis by (simp add: pending_later_def)
  qed
  have "next_due s \<noteq> None"
  proof
    assume "next_due s = None"
    then have "clock s < fst (snd (i, d, LaterCb))"
      using mem unfolding next_due_None_iff by blast
    with "1.prems"(3) show False by simp
  qed
  then obtain tm where Some: "next_due s = Some tm" by auto
  note tm = next_due_SomeD[OF Some]
  have fd: "fire_due s = fire_due (fire_one tm s)"
    using Some by (subst fire_due.simps) simp
  let ?s1 = "fire_one tm s"
  show ?case
  proof (cases "snd (snd tm) = LaterCb")
    case True
    then have "tm \<in> set (pending_later s)"
      using tm(1) by (simp add: pending_later_def)
    then have t: "tm = (i, d, LaterCb)" by (simp add: "1.prems"(2))
    have to: "timeout s = Some i"
      using "1.prems"(1) mem by (auto simp: timers_ok_def list_all_iff)
    note f = fire_one_later[OF "1.prems"(4,5) to, of d, folded t]
    have ok1: "timers_ok ?s1" and pl1: "pending_later ?s1 = []"
      using remove_timers_ok[OF "1.prems"(1) f(1) f(4) f(5)] by (simp_all add: "1.prems"(2))
    have q1: "\<forall>x \<in> set (pending_later ?s1). clock ?s1 < fst (snd x)"
      by (simp add: pl1)
    from fire_due_quiet[OF ok1 q1] obtain T F g where
      r: "timers_ok (fire_due ?s1)" "pending_later (fire_due ?s1) = pending_later ?s1"
        "count_list (fired (fire_due ?s1)) LaterCb = count_list (fired ?s1) LaterCb"
        "fire_due ?s1 = ?s1\<lparr>timers := T, fired := F, focused := g\<rparr>"
      by blast
    have "isOpen (fire_due ?s1) = isOpen ?s1"
      by (simp add: r(4))
    then show ?thesis
      using r(1,2,3) pl1 by (simp add: fd f(2,3))
  next
    case False
    then obtain j e l where t: "tm = (j, e, FocusCb l)"
      by (cases tm; cases "snd (snd tm)") auto
    have s1: "?s1 = s\<lparr>timers := filter (\<lambda>x. fst x \<noteq> j) (timers s),
                          fired := fired s @ [FocusCb l], focused := Some l\<rparr>"
      by (simp add: t fire_one_focus)
    have f1: "timers ?s1 = filter (\<lambda>x. fst x \<noteq> fst tm) (timers s)"
      "nextTimer ?s1 = nextTimer s" "timeout ?s1 = timeout s"
      by (simp_all add: s1) (simp add: t)
    have ok1: "timers_ok ?s1" and pl1: "pending_later ?s1 = pending_later s"
      by (rule remove_other_timer[OF "1.prems"(1) tm(1) False f1])+
    have h1: "pending_later ?s1 = [(i, d, LaterCb)]" "d \<le> clock ?s1"
      "nav_toggle ?s1 = Some t" "nav_nav ?s1 = Some n"
      using "1.prems" by (simp_all add: pl1) (simp_all add: s1)
    from "1.IH"[OF Some ok1 h1]
    have "timers_ok (fire_due ?s1) \<and> pending_later (fire_due ?s1) = [] \<and>
          count_list (fired (fire_due ?s1)) LaterCb = count_list (fired ?s1) LaterCb + 1 \<and>
          isOpen (fire_due ?s1) = (isOpen ?s1 \<and> isMobile ?s1)" .
    moreover have "count_list (fired ?s1) LaterCb = count_list (fired s) LaterCb"
      "isOpen ?s1 = isOpen s" "isMobile ?s1 = isMobile s"
      by (simp_all add: s1 isMobile_def)
    ultimately show ?thesis
      by (simp add: fd)
  qed
qed


lemma timers_ok_env [simp]:
  "timers_ok (s\<lparr>innerWidth := w\<rparr>) = timers_ok s"
  "timers_ok (s\<lparr>clock := c\<rparr>) = timers_ok s"
  "pending_later (s\<lparr>innerWidth := w\<rparr>) = pending_later s"
  "pending_later (s\<lparr>clock := c\<rparr>) = pending_later s"
  by (simp_all add: timers_ok_def pending_later_def)

lemma resize_step:
  assumes "ready t n links s" and "timers_ok s"
  shows "ready t n links (exec (Resize w) s)" and "timers_ok (exec (Resize w) s)"
    and "pending_later (exec (Resize w) s) = [(nextTimer s, clock s + 150, LaterCb)]"
    and "fired (exec (Resize w) s) = fired s" and "isOpen (exec (Resize w) s) = isOpen s"
    and "innerWidth (exec (Resize w) s) = w" and "clock (exec (Resize w) s) = clock s"
proof -
  let ?u = "s\<lparr>innerWidth := w\<rparr>"
  have ok: "timers_ok ?u" using assms(2) by simp
  show "ready t n links (exec (Resize w) s)"
    using assms(1) by (simp add: resize_exec[OF assms(1)] ready_def executedFunction_fields)
  show "timers_ok (exec (Resize w) s)"
    unfolding resize_exec[OF assms(1)] by (rule executedFunction_ok(1)[OF ok])
  show "pending_later (exec (Resize w) s) = [(nextTimer s, clock s + 150, LaterCb)]"
    unfolding resize_exec[OF assms(1)] using executedFunction_ok(2)[OF ok, of 150] by simp
  show "fired (exec (Resize w) s) = fired s" "isOpen (exec (Resize w) s) = isOpen s"
    "innerWidth (exec (Resize w) s) = w" "clock (exec (Resize w) s) = clock s"
    by (simp_all add: resize_exec[OF assms(1)] executedFunction_fields)
qed

lemma burst_then_quiet:
  assumes "ready t n links s" and "timers_ok s" and "\<forall>(w', gap) \<in> set ws. gap < 150"
    and "150 \<le> quiet"
  shows "count_list (fired (run (burst ws @ [Resize w, Tick quiet]) s)) LaterCb =
           count_list (fired s) LaterCb + 1 \<and>
         pending_later (run (burst ws @ [Resize w, Tick quiet]) s) = [] \<and>
         isOpen (run (burst ws @ [Resize w, Tick quiet]) s) = (isOpen s \<and> w < 768)"
  using assms(1,2,3)
proof (induction ws arbitrary: s)
  case Nil
  note r = resize_step[OF Nil.prems(1,2), of w]
  let ?s1 = "exec (Resize w) s"
  let ?s2 = "?s1\<lparr>clock := clock ?s1 + quiet\<rparr>"
  have h: "timers_ok ?s2" "pending_later ?s2 = [(nextTimer s, clock s + 150, LaterCb)]"
    "clock s + 150 \<le> clock ?s2" "nav_toggle ?s2 = Some t" "nav_nav ?s2 = Some n"
    using r assms(4) by (simp_all add: ready_def)
  from fire_due_later[OF h]
  have "count_list (fired (fire_due ?s2)) LaterCb = count_list (fired ?s2) LaterCb + 1 \<and>
        pending_later (fire_due ?s2) = [] \<and>
        isOpen (fire_due ?s2) = (isOpen ?s2 \<and> isMobile ?s2)"
    by simp
  moreover have "fired ?s2 = fired s" "isOpen ?s2 = isOpen s" "isMobile ?s2 = (w < 768)"
    using r by (simp_all add: isMobile_def breakpoints_mobile_def)
  moreover have "run (burst [] @ [Resize w, Tick quiet]) s = fire_due ?s2"
    by (simp add: exec.simps(4))
  ultimately show ?case
    by simp
next
  case (Cons a ws)
  obtain w0 g where a: "a = (w0, g)" by (cases a)
  have g: "g < 150" and rest: "\<forall>(w', gap) \<in> set ws. gap < 150"
    using Cons.prems(3) a by auto
  note r = resize_step[OF Cons.prems(1,2), of w0]
  let ?s1 = "exec (Resize w0) s"
  let ?s2 = "?s1\<lparr>clock := clock ?s1 + g\<rparr>"
  have ok2: "timers_ok ?s2" using r(2) by simp
  have q2: "\<forall>tm \<in> set (pending_later ?s2). clock ?s2 < fst (snd tm)"
    using r(3,7) g by simp
  from fire_due_quiet[OF ok2 q2] obtain T F f where
    q: "timers_ok (fire_due ?s2)"
      "count_list (fired (fire_due ?s2)) LaterCb = count_list (fired ?s2) LaterCb"
      "fire_due ?s2 = ?s2\<lparr>timers := T, fired := F, focused := f\<rparr>"
    by blast
  have rd: "ready t n links (fire_due ?s2)"
    using r(1) by (simp add: q(3) ready_def)
  have same: "count_list (fired (fire_due ?s2)) LaterCb = count_list (fired s) LaterCb"
    "isOpen (fire_due ?s2) = isOpen s"
    using r(4,5) q(2) by (simp_all add: q(3))
  have "run (burst (a # ws) @ [Resize w, Tick quiet]) s =
        run (burst ws @ [Resize w, Tick quiet]) (fire_due ?s2)"
    by (simp add: a exec.simps(4))
  then show ?case
    using Cons.IH[OF rd q(1) rest] same by simp
qed

text \<open>
  C6. On a page that is set up, a resize event cancels the pending debounced callback, if
  there is one, and schedules a new one 150 ms ahead, so that exactly one is pending
  afterwards. Hence for a burst of resize events, each less than 150 ms after the one
  before, followed by a last resize to width \<open>w\<close> and a quiet period of at least 150 ms,
  the resize evaluation runs exactly once over the whole run, none is pending at the end,
  and the menu is open at the end exactly when it was open before and \<open>w\<close> is below 768:
  the evaluation closes the menu only if it is open and the viewport is not mobile.
\<close>

theorem resize_burst_evaluates_once:
  assumes "ready t n links s" and "timers_ok s" and "\<forall>(w', gap) \<in> set ws. gap < 150"
    and "150 \<le> quiet"
  shows "pending_later (exec (Resize w) s) = [(nextTimer s, clock s + 150, LaterCb)] \<and>
         count_list (fired (run (burst ws @ [Resize w, Tick quiet]) s)) LaterCb =
           count_list (fired s) LaterCb + 1 \<and>
         pending_later (run (burst ws @ [Resize w, Tick quiet]) s) = [] \<and>
         isOpen (run (burst ws @ [Resize w, Tick quiet]) s) = (isOpen s \<and> w < 768)"
  using resize_step(3)[OF assms(1,2)] burst_then_quiet[OF assms] by simp

lemma page_open_timers_ok: "timers_ok page_open"
proof -
  have "nextTimer page_open = 2" "timeout page_open = None"
    by (simp_all add: page_open_eq schedule_focus_def setTimeout_def page_ready_fields
        opened_dom_links page_ready_links[simplified])
  then show ?thesis
    by (simp add: timers_ok_def page_open_timers)
qed

theorem resize_burst_evaluates_once_witness:
  "ready [0,0,0] [0,0,1] [[0,0,1,0],[0,0,1,1]] page_open \<and> timers_ok page_open \<and>
   (50 :: nat) < 150 \<and> (100 :: nat) < 150 \<and> (150 :: nat) \<le> 150 \<and>
   isOpen page_open \<and>
   count_list (fired (run (burst [(900, 50), (1000, 100)] @ [Resize 1024, Tick 150]) page_open))
     LaterCb = count_list (fired page_open) LaterCb + 1 \<and>
   \<not> isOpen (run (burst [(900, 50), (1000, 100)] @ [Resize 1024, Tick 150]) page_open)"
proof -
  have g: "\<forall>(w', gap) \<in> set [(900 :: int, 50), (1000, 100 :: nat)]. gap < 150" by simp
  have q: "(150 :: nat) \<le> 150" by simp
  note t = resize_burst_evaluates_once[OF page_open_ready page_open_timers_ok g q, of 1024]
  from t have "count_list (fired (run (burst [(900, 50), (1000, 100)] @ [Resize 1024, Tick 150])
                  page_open)) LaterCb = count_list (fired page_open) LaterCb + 1"
    and "isOpen (run (burst [(900, 50), (1000, 100)] @ [Resize 1024, Tick 150]) page_open) =
           (isOpen page_open \<and> (1024 :: int) < 768)"
    by blast+
  then show ?thesis
    using page_open_ready page_open_timers_ok page_open_handles(3) by simp
qed

end
